theory Spec2Isabelle
  imports Main "HOL-Library.Char_ord" "HOL-Library.List_Lexorder"
begin

section \<open>Python values and strings\<close>

text \<open>
  The workflow engine of \<^verbatim>\<open>machinist/workflow.py\<close> works on dynamically typed values:
  the context is a \<^verbatim>\<open>Dict[str, Any]\<close>.  The values that reach it are modelled by
  \<open>pyval\<close>.  A Python \<^verbatim>\<open>dict\<close> keeps insertion order, which \<^verbatim>\<open>str\<close> shows, so
  a dictionary is an association list with distinct keys.  A \<open>char\<close> stands for a
  code point below 256; floats are not modelled.
\<close>

datatype pyval =
    VNone
  | VBool bool
  | VInt int
  | VStr string
  | VList "pyval list"
  | VDict "(string \<times> pyval) list"

type_synonym pydict = "(string \<times> pyval) list"

text \<open>\<^verbatim>\<open>d.get(k)\<close>, which is \<^verbatim>\<open>None\<close> for a missing key, and \<^verbatim>\<open>d[k] = v\<close>.\<close>

definition dict_get :: "pydict \<Rightarrow> string \<Rightarrow> pyval" where
  "dict_get d k = (case map_of d k of None \<Rightarrow> VNone | Some v \<Rightarrow> v)"

fun dict_set :: "'k \<Rightarrow> 'v \<Rightarrow> ('k \<times> 'v) list \<Rightarrow> ('k \<times> 'v) list" where
  "dict_set k v [] = [(k, v)]"
| "dict_set k v ((k', v') # d) = (if k' = k then (k, v) # d else (k', v') # dict_set k v d)"

text \<open>\<^verbatim>\<open>bool(v)\<close>.\<close>

fun truthy :: "pyval \<Rightarrow> bool" where
  "truthy VNone = False"
| "truthy (VBool b) = b"
| "truthy (VInt i) = (i \<noteq> 0)"
| "truthy (VStr s) = (s \<noteq> [])"
| "truthy (VList xs) = (xs \<noteq> [])"
| "truthy (VDict d) = (d \<noteq> [])"

subsection \<open>String primitives\<close>

definition startswith :: "string \<Rightarrow> string \<Rightarrow> bool" where
  "startswith p s = (take (length p) s = p)"

text \<open>
  \<^verbatim>\<open>s.split(sep, 1)\<close> for a non-empty separator: the text before and after the first
  occurrence of \<open>sep\<close>, and \<open>None\<close> when \<^verbatim>\<open>sep in s\<close> is false.
\<close>

fun split_once :: "string \<Rightarrow> string \<Rightarrow> (string \<times> string) option" where
  "split_once sep [] = None"
| "split_once sep (c # cs) =
     (if startswith sep (c # cs) then Some ([], drop (length sep) (c # cs))
      else map_option (\<lambda>(a, b). (c # a, b)) (split_once sep cs))"

text \<open>\<^verbatim>\<open>s.strip(chars)\<close> for a one-character argument, and \<^verbatim>\<open>s.strip()\<close>.\<close>

definition strip_char :: "char \<Rightarrow> string \<Rightarrow> string" where
  "strip_char q s = rev (dropWhile (\<lambda>c. c = q) (rev (dropWhile (\<lambda>c. c = q) s)))"

definition is_space :: "char \<Rightarrow> bool" where
  "is_space c = (let n = (of_char c :: nat) in
     (9 \<le> n \<and> n \<le> 13) \<or> (28 \<le> n \<and> n \<le> 32) \<or> n = 133 \<or> n = 160)"

definition strip :: "string \<Rightarrow> string" where
  "strip s = rev (dropWhile is_space (rev (dropWhile is_space s)))"

text \<open>\<^verbatim>\<open>s.lower()\<close> on code points below 256.\<close>

definition lower_char :: "char \<Rightarrow> char" where
  "lower_char c = (let n = (of_char c :: nat) in
     if (65 \<le> n \<and> n \<le> 90) \<or> (192 \<le> n \<and> n \<le> 222 \<and> n \<noteq> 215)
     then char_of (n + 32) else c)"

definition lower :: "string \<Rightarrow> string" where
  "lower s = map lower_char s"

text \<open>\<^verbatim>\<open>sep.join(xs)\<close>.\<close>

fun join :: "string \<Rightarrow> string list \<Rightarrow> string" where
  "join sep [] = []"
| "join sep [x] = x"
| "join sep (x # y # ys) = x @ sep @ join sep (y # ys)"

subsection \<open>Rendering: \<^verbatim>\<open>str\<close> and \<^verbatim>\<open>repr\<close>\<close>

definition digit_char :: "nat \<Rightarrow> char" where
  "digit_char d = ''0123456789'' ! d"

fun show_nat :: "nat \<Rightarrow> string" where
  "show_nat n = (if n < 10 then [digit_char n] else show_nat (n div 10) @ [digit_char (n mod 10)])"

declare show_nat.simps [simp del]

definition show_int :: "int \<Rightarrow> string" where
  "show_int i = (if i < 0 then CHR ''-'' # show_nat (nat (- i)) else show_nat (nat i))"

definition hex_digit :: "nat \<Rightarrow> char" where
  "hex_digit d = ''0123456789abcdef'' ! d"

definition hex2 :: "char \<Rightarrow> string" where
  "hex2 c = (let n = (of_char c :: nat) in [hex_digit (n div 16), hex_digit (n mod 16)])"

text \<open>
  \<^verbatim>\<open>repr\<close> of a \<^verbatim>\<open>str\<close>: single quotes, unless the text has a single quote and no
  double quote; the quote and the backslash are escaped, tab, newline and return are
  written with their letters, every other unprintable code point as \<^verbatim>\<open>\xhh\<close>.
\<close>

definition printable :: "char \<Rightarrow> bool" where
  "printable c = (let n = (of_char c :: nat) in (32 \<le> n \<and> n < 127) \<or> (161 \<le> n \<and> n \<noteq> 173))"

definition repr_char :: "char \<Rightarrow> char \<Rightarrow> string" where
  "repr_char q c =
     (if c = q \<or> c = CHR 0x5C then [CHR 0x5C, c]
      else if c = CHR 0x09 then [CHR 0x5C, CHR ''t'']
      else if c = CHR 0x0A then [CHR 0x5C, CHR ''n'']
      else if c = CHR 0x0D then [CHR 0x5C, CHR ''r'']
      else if printable c then [c]
      else [CHR 0x5C, CHR ''x''] @ hex2 c)"

definition repr_str :: "string \<Rightarrow> string" where
  "repr_str s =
     (let q = (if CHR 0x27 \<in> set s \<and> CHR 0x22 \<notin> set s then CHR 0x22 else CHR 0x27)
      in [q] @ concat (map (repr_char q) s) @ [q])"

fun py_repr :: "pyval \<Rightarrow> string" where
  "py_repr VNone = ''None''"
| "py_repr (VBool b) = (if b then ''True'' else ''False'')"
| "py_repr (VInt i) = show_int i"
| "py_repr (VStr s) = repr_str s"
| "py_repr (VList xs) = ''['' @ join '', '' (map py_repr xs) @ '']''"
| "py_repr (VDict d) =
     ''{'' @ join '', '' (map (\<lambda>kv. repr_str (fst kv) @ '': '' @ py_repr (snd kv)) d) @ ''}''"

definition py_str :: "pyval \<Rightarrow> string" where
  "py_str v = (case v of VStr s \<Rightarrow> s | _ \<Rightarrow> py_repr v)"

text \<open>
  \<^verbatim>\<open>json.dumps\<close> of a string with the default \<^verbatim>\<open>ensure_ascii=True\<close>, and of a
  \<^verbatim>\<open>dict\<close> from strings to strings with \<^verbatim>\<open>sort_keys=True\<close> and the default
  separators.
\<close>

definition json_char :: "char \<Rightarrow> string" where
  "json_char c =
     (if c = CHR 0x22 then [CHR 0x5C, CHR 0x22]
      else if c = CHR 0x5C then [CHR 0x5C, CHR 0x5C]
      else if c = CHR 0x0A then [CHR 0x5C, CHR ''n'']
      else if c = CHR 0x0D then [CHR 0x5C, CHR ''r'']
      else if c = CHR 0x09 then [CHR 0x5C, CHR ''t'']
      else if c = CHR 0x08 then [CHR 0x5C, CHR ''b'']
      else if c = CHR 0x0C then [CHR 0x5C, CHR ''f'']
      else if 32 \<le> (of_char c :: nat) \<and> (of_char c :: nat) < 127 then [c]
      else [CHR 0x5C, CHR ''u'', CHR ''0'', CHR ''0''] @ hex2 c)"

definition json_string :: "string \<Rightarrow> string" where
  "json_string s = [CHR 0x22] @ concat (map json_char s) @ [CHR 0x22]"

definition json_dumps_sorted :: "(string \<times> string) list \<Rightarrow> string" where
  "json_dumps_sorted d =
     ''{'' @ join '', '' (map (\<lambda>(k, v). json_string k @ '': '' @ json_string v) (sort_key fst d)) @ ''}''"

section \<open>The workflow engine (\<^verbatim>\<open>machinist/workflow.py\<close>)\<close>

text \<open>Exceptions are values: the class and the message.\<close>

datatype error =
    ValueError string
  | TypeError string
  | RuntimeError string
  | KeyError string
  | FileNotFoundError string
  | OtherError string string

subsection \<open>\<^verbatim>\<open>_hash_inputs\<close>\<close>

text \<open>
  \<^verbatim>\<open>json.dumps({k: str(v) for k, v in sorted(inputs.items())}, sort_keys=True)\<close>,
  prefixed by the tool id.  The keys are distinct strings and every value has a
  \<^verbatim>\<open>str\<close>, so the \<^verbatim>\<open>try\<close> never fails on these values and the \<^verbatim>\<open>except\<close>
  branch is not reached.
\<close>

definition hash_inputs :: "string \<Rightarrow> pydict \<Rightarrow> string" where
  "hash_inputs tool_id inputs =
     tool_id @ '':'' @ json_dumps_sorted (map (\<lambda>(k, v). (k, py_str v)) (sort_key fst inputs))"

subsection \<open>\<^verbatim>\<open>_resolve_value\<close>\<close>

text \<open>
  The parameter \<open>item\<close> defaults to \<^verbatim>\<open>None\<close> in the source, and the first test is
  \<^verbatim>\<open>item is not None\<close>.
\<close>

definition resolve_value :: "string \<Rightarrow> pydict \<Rightarrow> pyval \<Rightarrow> error + pyval" where
  "resolve_value val context item =
     (if val = ''$item'' \<and> item \<noteq> VNone then Inr item
      else if startswith ''$'' val then
        (let key = drop 1 val in
         if CHR ''.'' \<in> set key then
           (case split_once ''.'' key of
              None \<Rightarrow> Inl (ValueError ''not enough values to unpack'')
            | Some (step_id, var_name) \<Rightarrow>
                (case map_of context step_id of
                   Some (VDict d) \<Rightarrow> Inr (dict_get d var_name)
                 | _ \<Rightarrow> Inl (ValueError (''Could not resolve step '' @ [CHR 0x27] @ step_id
                                          @ [CHR 0x27] @ '' in context.''))))
         else Inr (dict_get context key))
      else if lower val = ''true'' then Inr (VBool True)
      else if lower val = ''false'' then Inr (VBool False)
      else Inr (VStr (strip_char (CHR 0x27) (strip_char (CHR 0x22) val))))"

subsection \<open>\<^verbatim>\<open>_evaluate_condition\<close>\<close>

text \<open>
  The body of each \<^verbatim>\<open>try: ... except: pass\<close> of a comparison: \<open>None\<close> when the body
  raised, so that control falls through to the next statement.
\<close>

definition try_compare ::
  "(string \<Rightarrow> string \<Rightarrow> bool) \<Rightarrow> string \<Rightarrow> string \<Rightarrow> pydict \<Rightarrow> bool option" where
  "try_compare cmp lhs rhs context =
     (case resolve_value (strip lhs) context VNone of
        Inl e \<Rightarrow> None
      | Inr lhs_val \<Rightarrow>
          (case resolve_value (strip rhs) context VNone of
             Inl e \<Rightarrow> None
           | Inr rhs_val \<Rightarrow> Some (cmp (py_str lhs_val) (py_str rhs_val))))"

definition try_branch :: "string \<Rightarrow> (string \<Rightarrow> string \<Rightarrow> bool) \<Rightarrow> string \<Rightarrow> pydict \<Rightarrow> bool option" where
  "try_branch op cmp condition context =
     (case split_once op condition of
        None \<Rightarrow> None
      | Some (lhs, rhs) \<Rightarrow> try_compare cmp lhs rhs context)"

definition evaluate_condition :: "string \<Rightarrow> pydict \<Rightarrow> error + bool" where
  "evaluate_condition condition context =
     (if condition = [] then Inr True
      else case try_branch ''=='' (\<lambda>a b. a = b) condition context of
        Some b \<Rightarrow> Inr b
      | None \<Rightarrow>
         (case try_branch ''!='' (\<lambda>a b. a \<noteq> b) condition context of
            Some b \<Rightarrow> Inr b
          | None \<Rightarrow>
             (case resolve_value condition context VNone of
                Inr v \<Rightarrow> Inr (truthy v)
              | Inl e \<Rightarrow> Inr False)))"


section \<open>The registry (\<^verbatim>\<open>machinist/registry.py\<close>)\<close>

subsection \<open>\<^verbatim>\<open>ToolSpec\<close> and \<^verbatim>\<open>ToolMetadata\<close>\<close>

text \<open>
  The two dataclasses, with the types of their annotations.  A \<^verbatim>\<open>Dict[str, str]\<close> is
  a map, since Python compares dictionaries without regard to order.  The field
  \<^verbatim>\<open>failure_modes\<close> is annotated \<^verbatim>\<open>str\<close>, but its producers
  (\<^verbatim>\<open>prompts/spec_prompts.py\<close>) and the tests fill it with a list of
  \<^verbatim>\<open>{exception, reason}\<close> objects, which is the type taken here.  A \<^verbatim>\<open>Path\<close> is
  represented by its text, as \<^verbatim>\<open>str\<close> returns it.
\<close>

record ToolSpec =
  name :: string
  signature :: string
  docstring :: string
  spec_inputs :: "string \<rightharpoonup> string"
  spec_outputs :: "string \<rightharpoonup> string"
  failure_modes :: "(string \<rightharpoonup> string) list"
  deterministic :: bool
  spec_imports :: "string list"
  semantic_tags :: "string list"

datatype path = Path (path_str: string)

record ToolMetadata =
  tool_id :: string
  version :: string
  created_at :: string
  spec :: ToolSpec
  source_path :: path
  tests_path :: path
  test_results_path :: path
  dependencies :: "string \<rightharpoonup> string"
  security_policy :: string
  capability_profile :: string
  model :: string
  template_id :: "string option"

subsection \<open>Persisted documents\<close>

text \<open>
  \<^verbatim>\<open>metadata.json\<close> as \<^verbatim>\<open>json.loads\<close> returns it: a dictionary in which each key
  that the code reads is present or not.  \<^verbatim>\<open>json.dumps\<close> and \<^verbatim>\<open>json.loads\<close> are
  library functions and inverse to each other on these values, so a file is
  represented by the dictionary that was dumped into it.  The values have the types
  of the dataclass annotations; \<^verbatim>\<open>template_id\<close> may also be \<^verbatim>\<open>null\<close>.
\<close>

record spec_doc =
  j_name :: "string option"
  j_signature :: "string option"
  j_docstring :: "string option"
  j_inputs :: "(string \<rightharpoonup> string) option"
  j_outputs :: "(string \<rightharpoonup> string) option"
  j_failure_modes :: "(string \<rightharpoonup> string) list option"
  j_deterministic :: "bool option"
  j_imports :: "string list option"
  j_semantic_tags :: "string list option"

record meta_doc =
  j_tool_id :: "string option"
  j_version :: "string option"
  j_created_at :: "string option"
  j_spec :: "spec_doc option"
  j_source_path :: "string option"
  j_tests_path :: "string option"
  j_test_results_path :: "string option"
  j_dependencies :: "(string \<rightharpoonup> string) option"
  j_security_policy :: "string option"
  j_capability_profile :: "string option"
  j_model :: "string option"
  j_template_id :: "string option option"

text \<open>\<^verbatim>\<open>asdict(spec)\<close> and \<^verbatim>\<open>ToolMetadata.to_dict\<close>.\<close>

definition spec_asdict :: "ToolSpec \<Rightarrow> spec_doc" where
  "spec_asdict s =
     \<lparr> j_name = Some (name s), j_signature = Some (signature s),
       j_docstring = Some (docstring s), j_inputs = Some (spec_inputs s),
       j_outputs = Some (spec_outputs s), j_failure_modes = Some (failure_modes s),
       j_deterministic = Some (deterministic s), j_imports = Some (spec_imports s),
       j_semantic_tags = Some (semantic_tags s) \<rparr>"

definition to_dict :: "ToolMetadata \<Rightarrow> meta_doc" where
  "to_dict m =
     \<lparr> j_tool_id = Some (tool_id m), j_version = Some (version m),
       j_created_at = Some (created_at m), j_spec = Some (spec_asdict (spec m)),
       j_source_path = Some (path_str (source_path m)),
       j_tests_path = Some (path_str (tests_path m)),
       j_test_results_path = Some (path_str (test_results_path m)),
       j_dependencies = Some (dependencies m),
       j_security_policy = Some (security_policy m),
       j_capability_profile = Some (capability_profile m),
       j_model = Some (model m), j_template_id = Some (template_id m) \<rparr>"

subsection \<open>Errors in sequence\<close>

definition bindE :: "error + 'a \<Rightarrow> ('a \<Rightarrow> error + 'b) \<Rightarrow> error + 'b" where
  "bindE x f = (case x of Inl e \<Rightarrow> Inl e | Inr a \<Rightarrow> f a)"

text \<open>\<^verbatim>\<open>data[key]\<close>: a \<^verbatim>\<open>KeyError\<close> for a missing key.\<close>

definition subscript :: "string \<Rightarrow> 'a option \<Rightarrow> error + 'a" where
  "subscript key x = (case x of None \<Rightarrow> Inl (KeyError key) | Some a \<Rightarrow> Inr a)"

text \<open>\<^verbatim>\<open>data.get(key, default)\<close>.\<close>

definition get_default :: "'a option \<Rightarrow> 'a \<Rightarrow> 'a" where
  "get_default x d = (case x of None \<Rightarrow> d | Some a \<Rightarrow> a)"

subsection \<open>\<^verbatim>\<open>load\<close> and \<^verbatim>\<open>register\<close>\<close>

text \<open>
  \<^verbatim>\<open>spec_data.setdefault("imports", [])\<close> followed by \<^verbatim>\<open>ToolSpec(**spec_data)\<close>:
  the constructor raises a \<^verbatim>\<open>TypeError\<close> when a field without a default is missing,
  and \<^verbatim>\<open>semantic_tags\<close> has the default of the dataclass.
\<close>

definition make_spec :: "spec_doc \<Rightarrow> error + ToolSpec" where
  "make_spec d =
     (if j_name d = None \<or> j_signature d = None \<or> j_docstring d = None \<or> j_inputs d = None
         \<or> j_outputs d = None \<or> j_failure_modes d = None \<or> j_deterministic d = None
      then Inl (TypeError ''ToolSpec.__init__() missing required positional arguments'')
      else Inr \<lparr> name = the (j_name d), signature = the (j_signature d),
                 docstring = the (j_docstring d), spec_inputs = the (j_inputs d),
                 spec_outputs = the (j_outputs d), failure_modes = the (j_failure_modes d),
                 deterministic = the (j_deterministic d),
                 spec_imports = get_default (j_imports d) [],
                 semantic_tags = get_default (j_semantic_tags d) [] \<rparr>)"

definition make_metadata :: "meta_doc \<Rightarrow> error + ToolMetadata" where
  "make_metadata data =
     bindE (subscript ''spec'' (j_spec data)) (\<lambda>spec_data.
     bindE (make_spec spec_data) (\<lambda>sp.
     bindE (subscript ''tool_id'' (j_tool_id data)) (\<lambda>tid.
     bindE (subscript ''version'' (j_version data)) (\<lambda>ver.
     bindE (subscript ''created_at'' (j_created_at data)) (\<lambda>cre.
     bindE (subscript ''source_path'' (j_source_path data)) (\<lambda>src.
     bindE (subscript ''tests_path'' (j_tests_path data)) (\<lambda>tst.
     bindE (subscript ''test_results_path'' (j_test_results_path data)) (\<lambda>res.
       Inr \<lparr> tool_id = tid, version = ver, created_at = cre, spec = sp,
             source_path = Path src, tests_path = Path tst, test_results_path = Path res,
             dependencies = get_default (j_dependencies data) Map.empty,
             security_policy = get_default (j_security_policy data) [],
             capability_profile = get_default (j_capability_profile data) [],
             model = get_default (j_model data) [],
             template_id = get_default (j_template_id data) None \<rparr>))))))))"

subsection \<open>Compositions and executables\<close>

text \<open>
  Modelled from the spec: \<^verbatim>\<open>machinist/templates.py\<close>, which declares
  \<^verbatim>\<open>CompositionSpec\<close>, \<^verbatim>\<open>CompositionStep\<close> and \<^verbatim>\<open>StepBinding\<close>, is not among the
  sources.  The fields are those of section 3 of the specification that the engine
  reads, with the names of the constructor calls in \<^verbatim>\<open>load_cached_spec\<close>; the
  dictionaries \<^verbatim>\<open>bind\<close> and \<^verbatim>\<open>outputs\<close> are association lists because the engine
  iterates over them in order.
\<close>

datatype StepBinding = StepBinding (binding_value: string)

record CompositionStep =
  step_id :: string
  step_tool_id :: string
  step_bind :: "(string \<times> StepBinding) list"
  step_foreach :: "string option"
  step_outputs :: "(string \<times> string) list"
  step_if_condition :: "string option"

record CompositionSpec =
  pipeline_id :: string
  description :: string
  steps :: "CompositionStep list"

text \<open>
  A tool's callable.  Generated code need not be a function of its arguments alone,
  so a callable also sees the invocations made before it: each is the id of the tool
  that ran and the keyword arguments it got.  It returns a value or raises.
\<close>

type_synonym call = "string \<times> pydict"

type_synonym executable = "call list \<Rightarrow> pydict \<Rightarrow> error + pyval"

text \<open>
  The state of the registry on disk: the tool directories under the root with their
  \<^verbatim>\<open>metadata.json\<close>, in the order in which \<^verbatim>\<open>iterdir\<close> lists them (a new directory
  is listed last); the cached \<^verbatim>\<open>CompositionSpec\<close>s that decode, in the order of the
  scan; and what importing a source file gives, a map from the names of its callables
  to them (no entry when the file does not exist).
\<close>

record registry =
  tool_dirs :: "(string \<times> meta_doc) list"
  cached_workflows :: "CompositionSpec list"
  modules :: "string \<rightharpoonup> (string \<rightharpoonup> executable)"

definition load :: "registry \<Rightarrow> string \<Rightarrow> error + ToolMetadata option" where
  "load reg tid =
     (case map_of (tool_dirs reg) tid of
        None \<Rightarrow> Inr None
      | Some data \<Rightarrow> bindE (make_metadata data) (\<lambda>m. Inr (Some m)))"

text \<open>
  \<^verbatim>\<open>register\<close> writes \<^verbatim>\<open>to_json()\<close> into the directory named by the tool id,
  replacing what was there.
\<close>

definition register :: "ToolMetadata \<Rightarrow> registry \<Rightarrow> registry" where
  "register metadata reg = reg\<lparr> tool_dirs := dict_set (tool_id metadata) (to_dict metadata) (tool_dirs reg) \<rparr>"

text \<open>
  \<^verbatim>\<open>list_tools\<close> loads every directory in turn; a document that does not load raises
  out of the scan.
\<close>

fun load_each :: "registry \<Rightarrow> string list \<Rightarrow> error + ToolMetadata list" where
  "load_each reg [] = Inr []"
| "load_each reg (d # ds) =
     bindE (load reg d) (\<lambda>metadata.
     bindE (load_each reg ds) (\<lambda>rest.
       Inr (case metadata of None \<Rightarrow> rest | Some m \<Rightarrow> m # rest)))"

definition list_tools :: "registry \<Rightarrow> error + ToolMetadata list" where
  "list_tools reg = load_each reg (map fst (tool_dirs reg))"

definition find_by_template_id :: "registry \<Rightarrow> string \<Rightarrow> error + string list" where
  "find_by_template_id reg tmpl =
     bindE (load_each reg (map fst (tool_dirs reg))) (\<lambda>ms.
       Inr (map tool_id (filter (\<lambda>m. template_id m = Some tmpl) ms)))"


definition find_workflow_by_id :: "registry \<Rightarrow> string \<Rightarrow> CompositionSpec option" where
  "find_workflow_by_id reg pid = find (\<lambda>w. pipeline_id w = pid) (cached_workflows reg)"

section \<open>Running a workflow\<close>

text \<open>
  What a run changes: the engine's \<^verbatim>\<open>_execution_cache\<close>, the registry's
  \<^verbatim>\<open>_executable_cache\<close>, and the invocations of callables made so far, which are
  recorded to count them.
\<close>

record machine =
  execution_cache :: "string \<rightharpoonup> pyval"
  executable_cache :: "string \<rightharpoonup> executable"
  calls :: "call list"

text \<open>
  The outcome of a piece of the engine: \<open>None\<close> when it does not return, otherwise
  the exception or the value, and the state it leaves.
\<close>

type_synonym 'a outcome = "((error + 'a) \<times> machine) option"

definition quoted :: "string \<Rightarrow> string" where
  "quoted s = [CHR 0x27] @ s @ [CHR 0x27]"

subsection \<open>\<^verbatim>\<open>get_executable\<close>\<close>

definition get_executable ::
  "registry \<Rightarrow> string \<Rightarrow> machine \<Rightarrow> (error + executable option) \<times> machine" where
  "get_executable reg tid m =
     (case executable_cache m tid of
        Some func \<Rightarrow> (Inr (Some func), m)
      | None \<Rightarrow>
         (case load reg tid of
            Inl e \<Rightarrow> (Inl e, m)
          | Inr None \<Rightarrow> (Inr None, m)
          | Inr (Some metadata) \<Rightarrow>
             (case modules reg (path_str (source_path metadata)) of
                None \<Rightarrow> (Inl (FileNotFoundError (''Source file for tool '' @ tid @ '' not found at ''
                                 @ path_str (source_path metadata))), m)
              | Some module \<Rightarrow>
                 (case module (name (spec metadata)) of
                    None \<Rightarrow> (Inr None, m)
                  | Some func \<Rightarrow>
                      (Inr (Some func), m\<lparr> executable_cache := (executable_cache m)(tid \<mapsto> func) \<rparr>)))))"

subsection \<open>\<^verbatim>\<open>_run_step_logic\<close>\<close>

text \<open>The tool that a reference stands for: steps 2 of the function.\<close>

definition select_tool :: "registry \<Rightarrow> string \<Rightarrow> string \<Rightarrow> error + string" where
  "select_tool reg sid tid =
     bindE (find_by_template_id reg tid) (\<lambda>by_template.
     bindE (if by_template = []
            then bindE (list_tools reg) (\<lambda>all_tools.
                   Inr (map tool_id (filter (\<lambda>t. name (spec t) = tid) all_tools)))
            else Inr by_template) (\<lambda>concrete_tool_ids.
       case concrete_tool_ids of
         [] \<Rightarrow> Inl (RuntimeError (''Step '' @ quoted sid
                       @ '': No registered tool found for template/name '' @ quoted tid))
       | tool_id_to_run # _ \<Rightarrow> Inr tool_id_to_run))"

definition is_pure_spec :: "ToolSpec \<Rightarrow> bool" where
  "is_pure_spec sp =
     (deterministic sp \<or> ''pure'' \<in> set (semantic_tags sp) \<or> ''idempotent'' \<in> set (semantic_tags sp))"

text \<open>Steps 3 and 4: the cache, then the call.\<close>

definition run_tool ::
  "registry \<Rightarrow> string \<Rightarrow> string \<Rightarrow> pydict \<Rightarrow> machine \<Rightarrow> (error + pyval) \<times> machine" where
  "run_tool reg sid tool_id_to_run kwargs m =
     (case load reg tool_id_to_run of
        Inl e \<Rightarrow> (Inl e, m)
      | Inr meta \<Rightarrow>
         (let is_pure = (case meta of None \<Rightarrow> False | Some md \<Rightarrow> is_pure_spec (spec md));
              cache_key = hash_inputs tool_id_to_run kwargs
          in case (if is_pure then execution_cache m cache_key else None) of
               Some cached \<Rightarrow> (Inr cached, m)
             | None \<Rightarrow>
                (case get_executable reg tool_id_to_run m of
                   (Inl e, m1) \<Rightarrow> (Inl e, m1)
                 | (Inr None, m1) \<Rightarrow>
                     (Inl (RuntimeError (''Step '' @ quoted sid
                        @ '': Could not load executable for tool '' @ quoted tool_id_to_run)), m1)
                 | (Inr (Some executable_func), m1) \<Rightarrow>
                     (let m2 = m1\<lparr> calls := calls m1 @ [(tool_id_to_run, kwargs)] \<rparr>
                      in case executable_func (calls m1) kwargs of
                           Inl e \<Rightarrow> (Inl e, m2)
                         | Inr result \<Rightarrow>
                             (Inr result,
                              if is_pure
                              then m2\<lparr> execution_cache := (execution_cache m2)(cache_key \<mapsto> result) \<rparr>
                              else m2)))))"

text \<open>
  The whole function.  \<open>nested\<close> is \<^verbatim>\<open>self.execute\<close>, for the recursive call on a
  nested workflow, whose final context is the result.
\<close>

definition run_step_logic ::
  "(CompositionSpec \<Rightarrow> pydict \<Rightarrow> machine \<Rightarrow> pydict outcome)
     \<Rightarrow> registry \<Rightarrow> string \<Rightarrow> string \<Rightarrow> pydict \<Rightarrow> machine \<Rightarrow> pyval outcome" where
  "run_step_logic nested reg sid tid kwargs m =
     (case find_workflow_by_id reg tid of
        Some nested_workflow \<Rightarrow>
          (case nested nested_workflow kwargs m of
             None \<Rightarrow> None
           | Some (Inl e, m') \<Rightarrow> Some (Inl e, m')
           | Some (Inr final_context, m') \<Rightarrow> Some (Inr (VDict final_context), m'))
      | None \<Rightarrow>
          (case select_tool reg sid tid of
             Inl e \<Rightarrow> Some (Inl e, m)
           | Inr tool_id_to_run \<Rightarrow> Some (run_tool reg sid tool_id_to_run kwargs m)))"

subsection \<open>\<^verbatim>\<open>execute\<close>\<close>

text \<open>The loop that fills \<^verbatim>\<open>kwargs\<close> from \<^verbatim>\<open>step.bind\<close>.\<close>

fun bind_params :: "(string \<times> StepBinding) list \<Rightarrow> pydict \<Rightarrow> pyval \<Rightarrow> pydict \<Rightarrow> error + pydict" where
  "bind_params [] context item kwargs = Inr kwargs"
| "bind_params ((param_name, binding) # rest) context item kwargs =
     (case resolve_value (binding_value binding) context item of
        Inl e \<Rightarrow> Inl e
      | Inr v \<Rightarrow> bind_params rest context item (dict_set param_name v kwargs))"

text \<open>
  \<^verbatim>\<open>if step.outputs: context[step.id] = {next(iter(step.outputs.keys())): value}\<close>.
\<close>

definition store_output :: "CompositionStep \<Rightarrow> pyval \<Rightarrow> pydict \<Rightarrow> pydict" where
  "store_output step v context =
     (case step_outputs step of
        [] \<Rightarrow> context
      | (output_name, _) # _ \<Rightarrow> dict_set (step_id step) (VDict [(output_name, v)]) context)"

text \<open>
  The inner loop of a \<^verbatim>\<open>foreach\<close> step; \<open>outs\<close> is \<^verbatim>\<open>step_outputs\<close>.  The handler of its \<^verbatim>\<open>try\<close> prints and
  raises the exception it caught, so the exception leaves unchanged.
\<close>

fun run_items ::
  "(CompositionSpec \<Rightarrow> pydict \<Rightarrow> machine \<Rightarrow> pydict outcome)
     \<Rightarrow> registry \<Rightarrow> CompositionStep \<Rightarrow> pydict \<Rightarrow> pyval list \<Rightarrow> pyval list \<Rightarrow> machine
     \<Rightarrow> pyval list outcome" where
  "run_items nested reg step context [] outs m = Some (Inr outs, m)"
| "run_items nested reg step context (item # items) outs m =
     (case bind_params (step_bind step) context item [] of
        Inl e \<Rightarrow> Some (Inl e, m)
      | Inr kwargs \<Rightarrow>
         (case run_step_logic nested reg (step_id step) (step_tool_id step) kwargs m of
            None \<Rightarrow> None
          | Some (Inl e, m') \<Rightarrow> Some (Inl e, m')
          | Some (Inr result, m') \<Rightarrow>
              run_items nested reg step context items (outs @ [result]) m'))"

text \<open>
  The body of the loop over the steps, after the test of the condition: the
  \<^verbatim>\<open>foreach\<close> branch and the single execution.
\<close>

definition step_body ::
  "(CompositionSpec \<Rightarrow> pydict \<Rightarrow> machine \<Rightarrow> pydict outcome)
     \<Rightarrow> registry \<Rightarrow> CompositionStep \<Rightarrow> pydict \<Rightarrow> machine \<Rightarrow> pydict outcome" where
  "step_body nested reg step context m =
     (if step_foreach step \<noteq> None \<and> step_foreach step \<noteq> Some []
      then
        (case resolve_value (the (step_foreach step)) context VNone of
           Inl e \<Rightarrow> Some (Inl e, m)
         | Inr (VList loop_collection) \<Rightarrow>
             (case run_items nested reg step context loop_collection [] m of
                None \<Rightarrow> None
              | Some (Inl e, m') \<Rightarrow> Some (Inl e, m')
              | Some (Inr outs, m') \<Rightarrow> Some (Inr (store_output step (VList outs) context), m'))
         | Inr _ \<Rightarrow>
             Some (Inl (TypeError (''Step '' @ quoted (step_id step) @ '': '' @ [CHR 0x60]
                    @ ''foreach'' @ [CHR 0x60] @ '' value '' @ quoted (the (step_foreach step))
                    @ '' did not resolve to a list.'')), m))
      else
        (case bind_params (step_bind step) context VNone [] of
           Inl e \<Rightarrow> Some (Inl e, m)
         | Inr kwargs \<Rightarrow>
            (case run_step_logic nested reg (step_id step) (step_tool_id step) kwargs m of
               None \<Rightarrow> None
             | Some (Inl e, m') \<Rightarrow> Some (Inl e, m')
             | Some (Inr result, m') \<Rightarrow> Some (Inr (store_output step result context), m'))))"

text \<open>
  One turn of the loop: \<^verbatim>\<open>if step.if_condition:\<close> guards the evaluation of the
  condition, and \<^verbatim>\<open>continue\<close> leaves everything as it is.
\<close>

definition exec_step ::
  "(CompositionSpec \<Rightarrow> pydict \<Rightarrow> machine \<Rightarrow> pydict outcome)
     \<Rightarrow> registry \<Rightarrow> CompositionStep \<Rightarrow> pydict \<Rightarrow> machine \<Rightarrow> pydict outcome" where
  "exec_step nested reg step context m =
     (case (case step_if_condition step of
              None \<Rightarrow> Inr True
            | Some c \<Rightarrow> if c = [] then Inr True else evaluate_condition c context) of
        Inl e \<Rightarrow> Some (Inl e, m)
      | Inr False \<Rightarrow> Some (Inr context, m)
      | Inr True \<Rightarrow> step_body nested reg step context m)"

fun run_steps ::
  "(CompositionSpec \<Rightarrow> pydict \<Rightarrow> machine \<Rightarrow> pydict outcome)
     \<Rightarrow> registry \<Rightarrow> CompositionStep list \<Rightarrow> pydict \<Rightarrow> machine \<Rightarrow> pydict outcome" where
  "run_steps nested reg [] context m = Some (Inr context, m)"
| "run_steps nested reg (step # rest) context m =
     (case exec_step nested reg step context m of
        None \<Rightarrow> None
      | Some (Inl e, m') \<Rightarrow> Some (Inl e, m')
      | Some (Inr context', m') \<Rightarrow> run_steps nested reg rest context' m')"

text \<open>
  \<^verbatim>\<open>execute\<close>.  A workflow may name itself as a tool, and the source has no guard
  against it, so the recursion is bounded by the depth of nesting that is allowed:
  with none left the run has not returned.
\<close>

primrec execute ::
  "nat \<Rightarrow> registry \<Rightarrow> CompositionSpec \<Rightarrow> pydict \<Rightarrow> machine \<Rightarrow> pydict outcome" where
  "execute 0 reg comp_spec inputs m = None"
| "execute (Suc depth) reg comp_spec inputs m =
     run_steps (execute depth reg) reg (steps comp_spec) inputs m"


subsection \<open>Initial states\<close>

text \<open>
  \<^verbatim>\<open>ToolRegistry(root)\<close> on a new root, and the state after
  \<^verbatim>\<open>WorkflowEngine(registry)\<close>: both caches are empty and nothing was invoked.
\<close>

definition empty_registry :: registry where
  "empty_registry = \<lparr> tool_dirs = [], cached_workflows = [], modules = Map.empty \<rparr>"

definition fresh_machine :: machine where
  "fresh_machine = \<lparr> execution_cache = Map.empty, executable_cache = Map.empty, calls = [] \<rparr>"

subsection \<open>The cache of results is only extended\<close>



section \<open>Content-derived identifiers\<close>

text \<open>
  \<^verbatim>\<open>_hash_payload\<close> feeds each part to one \<^verbatim>\<open>hashlib.sha256\<close> object, which is the
  digest of the concatenation of the parts, and returns \<^verbatim>\<open>hexdigest()\<close>.
  \<^verbatim>\<open>resolve_id\<close> applies it to \<^verbatim>\<open>spec.to_json()\<close> and the source code.  The two
  library functions are parameters: \<open>sha256_hexdigest\<close> gives for a text the
  \<^verbatim>\<open>hexdigest\<close> of the SHA-256 of its UTF-8 encoding, and \<open>json_dumps\<close> gives for a
  \<^verbatim>\<open>ToolSpec\<close> the text
  \<^verbatim>\<open>json.dumps(asdict(spec), ensure_ascii=False, sort_keys=True, indent=2)\<close>.
\<close>

definition hash_payload :: "(string \<Rightarrow> string) \<Rightarrow> string list \<Rightarrow> string" where
  "hash_payload sha256_hexdigest parts = sha256_hexdigest (concat parts)"

definition resolve_id ::
  "(string \<Rightarrow> string) \<Rightarrow> (ToolSpec \<Rightarrow> string) \<Rightarrow> ToolSpec \<Rightarrow> string \<Rightarrow> string" where
  "resolve_id sha256_hexdigest json_dumps sp source_code =
     hash_payload sha256_hexdigest [json_dumps sp, source_code]"

section \<open>The sandbox\<close>

text \<open>
  Modelled from the spec: \<^verbatim>\<open>machinist/sandbox.py\<close>, which declares
  \<^verbatim>\<open>SandboxPolicy\<close> and \<^verbatim>\<open>BwrapSandbox\<close>, is not among the sources; only
  \<^verbatim>\<open>test_sandbox_resource_limits\<close> is.  Section 4.3 of the specification gives the
  policy its memory and CPU settings and its confinement flags, of which it names the
  one that allows the network.
\<close>

record SandboxPolicy =
  memory_limit_mb :: nat
  cpu_time_limit_sec :: nat
  allow_network :: bool

text \<open>
  Modelled from the spec: the resource-limiting wrapper, with a memory cap in bytes of
  \<^verbatim>\<open>memory_limit_mb\<close> times 1024 squared and a CPU cap in whole seconds.  The test
  names the wrapper \<^verbatim>\<open>prlimit\<close> and its two options.
\<close>

definition resource_wrapper :: "SandboxPolicy \<Rightarrow> string list" where
  "resource_wrapper policy =
     [''prlimit'',
      ''--as='' @ show_nat (memory_limit_mb policy * 1024 * 1024),
      ''--cpu='' @ show_nat (cpu_time_limit_sec policy)]"

text \<open>
  Modelled from the spec: the argument vector, on a host that has both wrapper tools.
  It is the concatenation of the namespace-isolation wrapper, the resource-limiting
  wrapper and the caller's command.  The specification does not give the arguments of
  the first, only that they are configured from the confinement flags, so it is the
  parameter \<open>namespace_wrapper\<close>, a function of the policy and the working directory.
\<close>

definition build_command ::
  "(SandboxPolicy \<Rightarrow> string \<Rightarrow> string list) \<Rightarrow> SandboxPolicy \<Rightarrow> string \<Rightarrow> string list
     \<Rightarrow> string list" where
  "build_command namespace_wrapper policy workdir cmd =
     namespace_wrapper policy workdir @ resource_wrapper policy @ cmd"

text \<open>The number that a decimal text denotes.\<close>

definition digit_value :: "char \<Rightarrow> nat" where
  "digit_value c = of_char c - 48"

definition read_nat :: "string \<Rightarrow> nat" where
  "read_nat s = foldl (\<lambda>n c. 10 * n + digit_value c) 0 s"

section \<open>The objects of the tests\<close>

text \<open>
  \<^verbatim>\<open>tests/test_new_features.py\<close> registers a tool \<^verbatim>\<open>print_msg\<close> under the template
  \<^verbatim>\<open>print_msg_template\<close>, declared deterministic, and puts a mock that returns
  \<^verbatim>\<open>"executed"\<close> into the registry's cache of callables.
\<close>

definition print_msg_spec :: ToolSpec where
  "print_msg_spec =
     \<lparr> name = ''print_msg'', signature = [], docstring = [], spec_inputs = Map.empty,
       spec_outputs = Map.empty, failure_modes = [], deterministic = True,
       spec_imports = [], semantic_tags = [] \<rparr>"

definition print_msg_meta :: ToolMetadata where
  "print_msg_meta =
     \<lparr> tool_id = ''print_msg'', version = ''1'', created_at = [], spec = print_msg_spec,
       source_path = Path ''.'', tests_path = Path ''.'', test_results_path = Path ''.'',
       dependencies = Map.empty, security_policy = [], capability_profile = [], model = [],
       template_id = Some ''print_msg_template'' \<rparr>"

definition mock_tool :: executable where
  "mock_tool history kwargs = Inr (VStr ''executed'')"

definition test_registry :: registry where
  "test_registry = register print_msg_meta empty_registry"

definition test_machine :: machine where
  "test_machine = fresh_machine\<lparr> executable_cache := [''print_msg'' \<mapsto> mock_tool] \<rparr>"





definition failing_tool :: executable where
  "failing_tool history kwargs = Inl (ValueError ''boom'')"

definition failing_machine :: machine where
  "failing_machine = fresh_machine\<lparr> executable_cache := [''print_msg'' \<mapsto> failing_tool] \<rparr>"

text \<open>
  The steps of \<^verbatim>\<open>test_workflow_conditional\<close> and its pipeline, and a step that
  iterates over the input \<^verbatim>\<open>xs\<close> and passes each item as \<^verbatim>\<open>x\<close>.
\<close>

definition step1 :: CompositionStep where
  "step1 =
     \<lparr> step_id = ''step1'', step_tool_id = ''print_msg_template'',
       step_bind = [(''msg'', StepBinding ([CHR 0x27] @ ''Hello'' @ [CHR 0x27]))],
       step_foreach = None, step_outputs = [(''res'', ''str'')], step_if_condition = None \<rparr>"

definition step2 :: CompositionStep where
  "step2 =
     \<lparr> step_id = ''step2'', step_tool_id = ''print_msg_template'',
       step_bind = [(''msg'', StepBinding ([CHR 0x27] @ ''Conditional'' @ [CHR 0x27]))],
       step_foreach = None, step_outputs = [(''res'', ''str'')],
       step_if_condition = Some ''$do_it'' \<rparr>"

definition test_pipeline :: CompositionSpec where
  "test_pipeline =
     \<lparr> pipeline_id = ''test_pipeline'', description = ''Test Conditional'',
       steps = [step1, step2] \<rparr>"

definition each_step :: CompositionStep where
  "each_step =
     \<lparr> step_id = ''each'', step_tool_id = ''print_msg_template'',
       step_bind = [(''x'', StepBinding ''$item'')],
       step_foreach = Some ''$xs'', step_outputs = [(''res'', ''list'')],
       step_if_condition = None \<rparr>"

section \<open>Readings of the specification\<close>

text \<open>
  The specification says of a string literal that one layer of surrounding quote
  characters is stripped if present.  In its words: when the text begins and ends
  with the same quote character, that pair is removed.
\<close>

definition spec_strip_one_layer :: "string \<Rightarrow> string" where
  "spec_strip_one_layer s =
     (if 2 \<le> length s \<and> hd s = last s \<and> (hd s = CHR 0x22 \<or> hd s = CHR 0x27)
      then butlast (tl s) else s)"

text \<open>
  The specification says that an exception that leaves a workflow is annotated with
  the id of the failing step.  In its words: the id occurs in the text of the
  exception.
\<close>

fun message :: "error \<Rightarrow> string" where
  "message (ValueError msg) = msg"
| "message (TypeError msg) = msg"
| "message (RuntimeError msg) = msg"
| "message (KeyError key) = quoted key"
| "message (FileNotFoundError msg) = msg"
| "message (OtherError cls msg) = msg"

definition spec_annotated_with :: "string \<Rightarrow> error \<Rightarrow> bool" where
  "spec_annotated_with sid e = (split_once sid (message e) \<noteq> None)"

text \<open>The registry of the tests after its pipeline was cached, and a step that runs it.\<close>

definition nesting_registry :: registry where
  "nesting_registry = test_registry\<lparr> cached_workflows := [test_pipeline] \<rparr>"

definition outer_step :: CompositionStep where
  "outer_step =
     \<lparr> step_id = ''outer'', step_tool_id = ''test_pipeline'',
       step_bind = [(''do_it'', StepBinding ''$flag'')],
       step_foreach = None, step_outputs = [(''ctx'', ''dict'')], step_if_condition = None \<rparr>"


text \<open>A step that declares no output, and a pipeline of the first test step and it.\<close>

definition quiet_step :: CompositionStep where
  "quiet_step =
     \<lparr> step_id = ''quiet'', step_tool_id = ''print_msg_template'',
       step_bind = [(''msg'', StepBinding ''Quiet'')],
       step_foreach = None, step_outputs = [], step_if_condition = None \<rparr>"

definition quiet_pipeline :: CompositionSpec where
  "quiet_pipeline = \<lparr> pipeline_id = ''quiet'', description = [], steps = [step1, quiet_step] \<rparr>"

text \<open>
  The second test step under a comparison whose right operand names a step that has
  not run, and the same comparison with its operands exchanged.
\<close>

definition guarded_step :: CompositionStep where
  "guarded_step = step2\<lparr> step_if_condition := Some ''x == $a.b'' \<rparr>"

definition guarded_pipeline :: CompositionSpec where
  "guarded_pipeline = \<lparr> pipeline_id = ''guarded'', description = [], steps = [guarded_step] \<rparr>"

definition mirrored_step :: CompositionStep where
  "mirrored_step = step2\<lparr> step_if_condition := Some ''$a.b == x'' \<rparr>"

definition mirrored_pipeline :: CompositionSpec where
  "mirrored_pipeline = \<lparr> pipeline_id = ''mirrored'', description = [], steps = [mirrored_step] \<rparr>"

section \<open>Variable resolution\<close>

subsection \<open>Splitting and stripping\<close>

lemma split_once_dot:
  "CHR ''.'' \<notin> set a \<Longrightarrow> split_once ''.'' (a @ ''.'' @ b) = Some (a, b)"
  by (induction a) (auto simp add: startswith_def)

lemma trim_right_decomp: "xs = rev (dropWhile P (rev xs)) @ rev (takeWhile P (rev xs))"
  by (metis rev_append rev_rev_ident takeWhile_dropWhile_id)

lemma strip_char_decomp:
  "\<exists>a b. s = a @ strip_char q s @ b \<and> set a \<subseteq> {q} \<and> set b \<subseteq> {q}"
proof -
  let ?t = "dropWhile (\<lambda>c. c = q) s"
  let ?a = "takeWhile (\<lambda>c. c = q) s"
  let ?b = "rev (takeWhile (\<lambda>c. c = q) (rev ?t))"
  have 1: "s = ?a @ ?t" by simp
  have 2: "?t = strip_char q s @ ?b"
    unfolding strip_char_def by (rule trim_right_decomp)
  have 3: "set ?a \<subseteq> {q}" using set_takeWhileD by fastforce
  have 4: "set ?b \<subseteq> {q}" using set_takeWhileD by fastforce
  from 1 2 have "s = ?a @ strip_char q s @ ?b" by simp
  with 3 4 show ?thesis by blast
qed

lemma strip_char_ends:
  "strip_char q s = [] \<or> (hd (strip_char q s) \<noteq> q \<and> last (strip_char q s) \<noteq> q)"
proof (cases "strip_char q s = []")
  case True then show ?thesis by simp
next
  case False
  let ?t = "dropWhile (\<lambda>c. c = q) s"
  let ?u = "dropWhile (\<lambda>c. c = q) (rev ?t)"
  have u: "?u \<noteq> []" using False by (simp add: strip_char_def)
  then have "hd ?u \<noteq> q"
    using hd_dropWhile[of "\<lambda>c. c = q" "rev ?t"] by simp
  then have l: "last (strip_char q s) \<noteq> q" using u by (simp add: strip_char_def last_rev)
  have t: "?t \<noteq> []"
  proof
    assume a: "?t = []"
    have "?u = []" unfolding a by simp
    with u show False by blast
  qed
  then have ht: "hd ?t \<noteq> q"
    using hd_dropWhile[of "\<lambda>c. c = q" s] by simp
  have "?t = rev ?u @ rev (takeWhile (\<lambda>c. c = q) (rev ?t))"
    by (rule trim_right_decomp)
  moreover have "rev ?u \<noteq> []" using u by simp
  ultimately have "hd ?t = hd (rev ?u)" using hd_append2[of "rev ?u"] by metis
  then have "hd (strip_char q s) \<noteq> q" using ht by (simp add: strip_char_def)
  with l show ?thesis by simp
qed

lemma strip_char_id:
  assumes "s = [] \<or> (hd s \<noteq> q \<and> last s \<noteq> q)"
  shows "strip_char q s = s"
proof -
  have 1: "dropWhile (\<lambda>c. c = q) s = s"
    using assms by (auto simp add: dropWhile_eq_self_iff)
  have "rev s = [] \<or> hd (rev s) \<noteq> q" using assms by (auto simp: hd_rev)
  then have 2: "dropWhile (\<lambda>c. c = q) (rev s) = rev s"
    by (auto simp add: dropWhile_eq_self_iff)
  show ?thesis by (simp add: strip_char_def 1 2)
qed

lemma strip_char_wrapped:
  assumes "inner = [] \<or> (hd inner \<noteq> q \<and> last inner \<noteq> q)"
  shows "strip_char q (q # inner @ [q]) = inner"
proof (cases "inner = []")
  case True then show ?thesis by (simp add: strip_char_def)
next
  case False
  with assms have h: "hd inner \<noteq> q" and l: "last inner \<noteq> q" by auto
  have 1: "dropWhile (\<lambda>c. c = q) (q # inner @ [q]) = inner @ [q]"
    using False h by (cases inner) auto
  have "hd (rev inner) \<noteq> q" using False l by (simp add: hd_rev)
  then have 2: "dropWhile (\<lambda>c. c = q) (rev (inner @ [q])) = rev inner"
    using False by (cases "rev inner") auto
  show ?thesis by (simp only: strip_char_def 1 2 rev_rev_ident)
qed



lemma resolve_literal:
  "\<not> startswith ''$'' v \<Longrightarrow> lower v \<noteq> ''true'' \<Longrightarrow> lower v \<noteq> ''false'' \<Longrightarrow>
   resolve_value v ctx item = Inr (VStr (strip_char (CHR 0x27) (strip_char (CHR 0x22) v)))"
  by (auto simp: resolve_value_def startswith_def)

lemma resolve_item: "item \<noteq> VNone \<Longrightarrow> resolve_value ''$item'' ctx item = Inr item"
  by (simp add: resolve_value_def)

lemma resolve_name:
  "CHR ''.'' \<notin> set nm \<Longrightarrow> nm \<noteq> ''item'' \<or> item = VNone \<Longrightarrow>
   resolve_value (CHR ''$'' # nm) ctx item = Inr (dict_get ctx nm)"
  by (auto simp: resolve_value_def startswith_def)

lemma resolve_field:
  "CHR ''.'' \<notin> set step \<Longrightarrow>
   resolve_value (CHR ''$'' # step @ ''.'' @ field) ctx item =
     (case map_of ctx step of
        Some (VDict d) \<Rightarrow> Inr (dict_get d field)
      | _ \<Rightarrow> Inl (ValueError (''Could not resolve step '' @ quoted step @ '' in context.'')))"
  using split_once_dot[of step field]
  by (auto simp: resolve_value_def startswith_def quoted_def split: option.splits pyval.splits)

lemma lower_not_dollar: "lower v = ''true'' \<or> lower v = ''false'' \<Longrightarrow> \<not> startswith ''$'' v"
proof (cases v)
  case Nil then show ?thesis by (simp add: startswith_def)
next
  case (Cons c cs)
  assume "lower v = ''true'' \<or> lower v = ''false''"
  then have "lower_char c = CHR ''t'' \<or> lower_char c = CHR ''f''"
    using Cons by (auto simp: lower_def)
  then have "c \<noteq> CHR ''$''" by (auto simp: lower_char_def)
  then show ?thesis using Cons by (simp add: startswith_def)
qed

lemma lower_not_item: "lower v = ''true'' \<or> lower v = ''false'' \<Longrightarrow> v \<noteq> ''$item''"
  using lower_not_dollar[of v] by (auto simp: startswith_def)

lemma resolve_bool:
  "lower v = ''true'' \<Longrightarrow> resolve_value v ctx item = Inr (VBool True)"
  "lower v = ''false'' \<Longrightarrow> resolve_value v ctx item = Inr (VBool False)"
  using lower_not_dollar[of v] lower_not_item[of v]
  by (simp_all add: resolve_value_def)


lemma lower_quote_first:
  "q = CHR 0x22 \<or> q = CHR 0x27 \<Longrightarrow> lower (q # rest) \<noteq> ''true'' \<and> lower (q # rest) \<noteq> ''false''"
  by (auto simp: lower_def lower_char_def)

lemma resolve_quoted:
  assumes q: "q = CHR 0x22 \<or> q = CHR 0x27"
    and inner: "inner = [] \<or> (hd inner \<notin> {CHR 0x22, CHR 0x27} \<and> last inner \<notin> {CHR 0x22, CHR 0x27})"
  shows "resolve_value (q # inner @ [q]) ctx item = Inr (VStr inner)"
proof -
  have n: "\<not> startswith ''$'' (q # inner @ [q])" using q by (auto simp: startswith_def)
  have i2: "strip_char (CHR 0x27) inner = inner"
    using inner strip_char_id[of inner "CHR 0x27"] by auto
  have "strip_char (CHR 0x27) (strip_char (CHR 0x22) (q # inner @ [q])) = inner"
  proof (cases "q = CHR 0x22")
    case True
    then have "strip_char (CHR 0x22) (q # inner @ [q]) = inner"
      using inner strip_char_wrapped[of inner "CHR 0x22"] by auto
    then show ?thesis using i2 by simp
  next
    case False
    then have q': "q = CHR 0x27" using q by simp
    have "strip_char (CHR 0x22) (q # inner @ [q]) = q # inner @ [q]"
      using q' strip_char_id[of "q # inner @ [q]" "CHR 0x22"] by simp
    moreover have "strip_char (CHR 0x27) (q # inner @ [q]) = inner"
      unfolding q' using inner strip_char_wrapped[of inner "CHR 0x27"] by auto
    ultimately show ?thesis by simp
  qed
  then show ?thesis
    using resolve_literal[OF n] lower_quote_first[OF q, of "inner @ [q]"] by simp
qed


subsection \<open>The grammar\<close>

text \<open>
  Claim C5, as the code has it.  \<^verbatim>\<open>$item\<close> is the loop item when there is one that
  is not \<^verbatim>\<open>None\<close>, or when the context has no entry \<^verbatim>\<open>item\<close>; any other
  \<^verbatim>\<open>$name\<close> without a dot is \<^verbatim>\<open>context.get(name)\<close>; \<^verbatim>\<open>$step.field\<close> is
  \<^verbatim>\<open>context[step].get(field)\<close> when \<^verbatim>\<open>context[step]\<close> is a dictionary and raises
  a \<^verbatim>\<open>ValueError\<close> otherwise; \<^verbatim>\<open>true\<close> and \<^verbatim>\<open>false\<close> in any case are the
  booleans; every other text that does not begin with a dollar sign is a string, from
  which all double quotes at both ends and then all single quotes at both ends are
  removed.  A text in one pair of quotes whose inside neither begins nor ends with a
  quote thus loses exactly that pair.
\<close>

theorem resolve_value_grammar:
  "(item \<noteq> VNone \<or> map_of ctx ''item'' = None
      \<longrightarrow> resolve_value ''$item'' ctx item = Inr item)
   \<and> (CHR ''.'' \<notin> set nm \<and> nm \<noteq> ''item''
      \<longrightarrow> resolve_value (CHR ''$'' # nm) ctx item = Inr (dict_get ctx nm))
   \<and> (CHR ''.'' \<notin> set step \<and> map_of ctx step = Some (VDict d)
      \<longrightarrow> resolve_value (CHR ''$'' # step @ ''.'' @ field) ctx item = Inr (dict_get d field))
   \<and> (CHR ''.'' \<notin> set step \<and> (\<forall>d'. map_of ctx step \<noteq> Some (VDict d'))
      \<longrightarrow> (\<exists>msg. resolve_value (CHR ''$'' # step @ ''.'' @ field) ctx item = Inl (ValueError msg)))
   \<and> (lower v = ''true'' \<longrightarrow> resolve_value v ctx item = Inr (VBool True))
   \<and> (lower v = ''false'' \<longrightarrow> resolve_value v ctx item = Inr (VBool False))
   \<and> (\<not> startswith ''$'' v \<and> lower v \<noteq> ''true'' \<and> lower v \<noteq> ''false''
      \<longrightarrow> resolve_value v ctx item = Inr (VStr (strip_char (CHR 0x27) (strip_char (CHR 0x22) v))))
   \<and> ((q = CHR 0x22 \<or> q = CHR 0x27)
        \<and> (inner = [] \<or> (hd inner \<notin> {CHR 0x22, CHR 0x27} \<and> last inner \<notin> {CHR 0x22, CHR 0x27}))
      \<longrightarrow> resolve_value (q # inner @ [q]) ctx item = Inr (VStr inner))"
proof -
  have 1: "item \<noteq> VNone \<or> map_of ctx ''item'' = None
      \<longrightarrow> resolve_value ''$item'' ctx item = Inr item"
    using resolve_item[of item ctx] resolve_name[of "''item''" item ctx]
    by (cases "item = VNone") (auto simp: dict_get_def)
  have 2: "CHR ''.'' \<notin> set nm \<and> nm \<noteq> ''item''
      \<longrightarrow> resolve_value (CHR ''$'' # nm) ctx item = Inr (dict_get ctx nm)"
    using resolve_name[of nm item ctx] by simp
  have 3: "CHR ''.'' \<notin> set step \<and> map_of ctx step = Some (VDict d)
      \<longrightarrow> resolve_value (CHR ''$'' # step @ ''.'' @ field) ctx item = Inr (dict_get d field)"
    using resolve_field[of step field ctx item] by simp
  have 4: "CHR ''.'' \<notin> set step \<and> (\<forall>d'. map_of ctx step \<noteq> Some (VDict d'))
      \<longrightarrow> (\<exists>msg. resolve_value (CHR ''$'' # step @ ''.'' @ field) ctx item = Inl (ValueError msg))"
    using resolve_field[of step field ctx item]
    by (auto split: option.splits pyval.splits)
  have 5: "lower v = ''true'' \<longrightarrow> resolve_value v ctx item = Inr (VBool True)"
    using resolve_bool(1) by blast
  have 6: "lower v = ''false'' \<longrightarrow> resolve_value v ctx item = Inr (VBool False)"
    using resolve_bool(2) by blast
  have 7: "\<not> startswith ''$'' v \<and> lower v \<noteq> ''true'' \<and> lower v \<noteq> ''false''
      \<longrightarrow> resolve_value v ctx item = Inr (VStr (strip_char (CHR 0x27) (strip_char (CHR 0x22) v)))"
    using resolve_literal by blast
  have 8: "(q = CHR 0x22 \<or> q = CHR 0x27)
        \<and> (inner = [] \<or> (hd inner \<notin> {CHR 0x22, CHR 0x27} \<and> last inner \<notin> {CHR 0x22, CHR 0x27}))
      \<longrightarrow> resolve_value (q # inner @ [q]) ctx item = Inr (VStr inner)"
    using resolve_quoted by blast
  from 1 2 3 4 5 6 7 8 show ?thesis by (intro conjI)
qed


text \<open>
  The instances: a loop item, a name, a field, a step that is not a dictionary, the
  two booleans, a bare literal and a quoted one.
\<close>

theorem resolve_value_grammar_witness:
  "resolve_value ''$item'' [] (VInt 3) = Inr (VInt 3)
   \<and> resolve_value ''$x'' [(''x'', VInt 1)] VNone = Inr (VInt 1)
   \<and> resolve_value ''$s.f'' [(''s'', VDict [(''f'', VStr ''v'')])] VNone = Inr (VStr ''v'')
   \<and> (\<exists>msg. resolve_value ''$s.f'' [(''s'', VInt 1)] VNone = Inl (ValueError msg))
   \<and> resolve_value ''True'' [] VNone = Inr (VBool True)
   \<and> resolve_value ''FALSE'' [] VNone = Inr (VBool False)
   \<and> resolve_value ''abc'' [] VNone = Inr (VStr ''abc'')
   \<and> resolve_value [CHR 0x27, CHR ''a'', CHR 0x27] [] VNone = Inr (VStr ''a'')"
proof -
  note g = resolve_value_grammar
  have lower_True: "lower ''True'' = ''true''" by code_simp
  have lower_FALSE: "lower ''FALSE'' = ''false''" by code_simp
  have lower_abc: "lower ''abc'' \<noteq> ''true'' \<and> lower ''abc'' \<noteq> ''false''" by code_simp
  have 1: "resolve_value ''$item'' [] (VInt 3) = Inr (VInt 3)"
    using g[THEN conjunct1, of "VInt 3" "[]"] by simp
  have 2: "resolve_value ''$x'' [(''x'', VInt 1)] VNone = Inr (VInt 1)"
    using g[THEN conjunct2, THEN conjunct1, of "''x''" "[(''x'', VInt 1)]" VNone]
    by (simp add: dict_get_def)
  have 3: "resolve_value ''$s.f'' [(''s'', VDict [(''f'', VStr ''v'')])] VNone = Inr (VStr ''v'')"
    using g[THEN conjunct2, THEN conjunct2, THEN conjunct1,
        of "''s''" "[(''s'', VDict [(''f'', VStr ''v'')])]" "[(''f'', VStr ''v'')]" "''f''" VNone]
    by (simp add: dict_get_def)
  have 4: "\<exists>msg. resolve_value ''$s.f'' [(''s'', VInt 1)] VNone = Inl (ValueError msg)"
    using g[THEN conjunct2, THEN conjunct2, THEN conjunct2, THEN conjunct1,
        of "''s''" "[(''s'', VInt 1)]" "''f''" VNone]
    by simp
  have 5: "resolve_value ''True'' [] VNone = Inr (VBool True)"
    using g[THEN conjunct2, THEN conjunct2, THEN conjunct2, THEN conjunct2, THEN conjunct1,
        of "''True''" "[]" VNone]
      lower_True
    by blast
  have 6: "resolve_value ''FALSE'' [] VNone = Inr (VBool False)"
    using g[THEN conjunct2, THEN conjunct2, THEN conjunct2, THEN conjunct2, THEN conjunct2,
        THEN conjunct1, of "''FALSE''" "[]" VNone]
      lower_FALSE
    by blast
  have 7: "resolve_value ''abc'' [] VNone = Inr (VStr ''abc'')"
    using g[THEN conjunct2, THEN conjunct2, THEN conjunct2, THEN conjunct2, THEN conjunct2,
        THEN conjunct2, THEN conjunct1, of "''abc''" "[]" VNone]
      lower_abc
    by (simp add: startswith_def strip_char_def)
  have 8: "resolve_value [CHR 0x27, CHR ''a'', CHR 0x27] [] VNone = Inr (VStr ''a'')"
    using g[THEN conjunct2, THEN conjunct2, THEN conjunct2, THEN conjunct2, THEN conjunct2,
        THEN conjunct2, THEN conjunct2, of "CHR 0x27" "''a''" "[]" VNone]
    by simp
  from 1 2 3 4 5 6 7 8 show ?thesis by (intro conjI)
qed


text \<open>
  Claim C5 as stated fails on a literal in two pairs of double quotes: both pairs are
  removed, where one layer would leave the inner pair.
\<close>

theorem resolve_value_one_layer_counterexample:
  "resolve_value [CHR 0x22, CHR 0x22, CHR ''a'', CHR 0x22, CHR 0x22] [] VNone = Inr (VStr ''a'')
   \<and> resolve_value [CHR 0x22, CHR 0x22, CHR ''a'', CHR 0x22, CHR 0x22] [] VNone
       \<noteq> Inr (VStr (spec_strip_one_layer [CHR 0x22, CHR 0x22, CHR ''a'', CHR 0x22, CHR 0x22]))"
  by (simp add: resolve_value_def startswith_def lower_def lower_char_def strip_char_def
      spec_strip_one_layer_def)

section \<open>Conditions\<close>

subsection \<open>What \<open>split_once\<close> computes\<close>

lemma startswith_append: "startswith sep (sep @ b)"
  by (simp add: startswith_def)

lemma startswith_decomp: "startswith sep s \<Longrightarrow> s = sep @ drop (length sep) s"
  by (metis append_take_drop_id startswith_def)

lemma split_once_Some:
  "split_once sep s = Some (a, b) \<Longrightarrow>
     s = a @ sep @ b \<and> (\<forall>a' b'. s = a' @ sep @ b' \<longrightarrow> length a \<le> length a')"
proof (induction s arbitrary: a)
  case Nil then show ?case by simp
next
  case (Cons c cs)
  show ?case
  proof (cases "startswith sep (c # cs)")
    case True
    with Cons.prems have "a = []" "b = drop (length sep) (c # cs)" by auto
    with True show ?thesis using startswith_decomp[of sep "c # cs"] by simp
  next
    case False
    with Cons.prems obtain a0 where a0: "split_once sep cs = Some (a0, b)" "a = c # a0"
      by auto
    from Cons.IH[OF a0(1)] have eq: "cs = a0 @ sep @ b"
      and least: "\<And>a' b'. cs = a' @ sep @ b' \<Longrightarrow> length a0 \<le> length a'" by auto
    have "length a \<le> length a'" if h: "c # cs = a' @ sep @ b'" for a' b'
    proof (cases a')
      case Nil
      with h have "startswith sep (c # cs)" by (simp add: startswith_def)
      with False show ?thesis by simp
    next
      case (Cons x a'')
      with h have "cs = a'' @ sep @ b'" by simp
      from least[OF this] show ?thesis using Cons a0(2) by simp
    qed
    with eq a0(2) show ?thesis by simp
  qed
qed

lemma split_once_None:
  "split_once sep s = None \<Longrightarrow> s = a @ sep @ b \<Longrightarrow> sep = [] \<and> s = []"
proof (induction s arbitrary: a)
  case Nil then show ?case by simp
next
  case (Cons c cs)
  from Cons.prems(1) have ns: "\<not> startswith sep (c # cs)" and n: "split_once sep cs = None"
    by (auto split: if_splits)
  show ?case
  proof (cases a)
    case Nil
    with Cons.prems(2) have "startswith sep (c # cs)" by (simp add: startswith_def)
    with ns show ?thesis by simp
  next
    case (Cons x a')
    with Cons.prems(2) have "cs = a' @ sep @ b" by simp
    from Cons.IH[OF n this] have "sep = []" by simp
    with ns show ?thesis by (simp add: startswith_def)
  qed
qed

lemma evaluate_condition_total: "\<exists>b. evaluate_condition c ctx = Inr b"
  by (auto simp add: evaluate_condition_def split: option.splits sum.splits)

lemma try_branch_Some:
  "split_once op c = Some (lhs, rhs) \<Longrightarrow> resolve_value (strip lhs) ctx VNone = Inr l \<Longrightarrow>
   resolve_value (strip rhs) ctx VNone = Inr r \<Longrightarrow>
   try_branch op cmp c ctx = Some (cmp (py_str l) (py_str r))"
  by (simp add: try_branch_def try_compare_def)

lemma try_branch_None:
  "try_branch op cmp c ctx = None \<longleftrightarrow>
     (case split_once op c of
        None \<Rightarrow> True
      | Some (lhs, rhs) \<Rightarrow> (\<exists>e. resolve_value (strip lhs) ctx VNone = Inl e)
                          \<or> (\<exists>e. resolve_value (strip rhs) ctx VNone = Inl e))"
  by (auto simp add: try_branch_def try_compare_def split: option.splits sum.splits)

lemma exec_step_skip:
  "step_if_condition step = Some c \<Longrightarrow> evaluate_condition c ctx = Inr False \<Longrightarrow>
   exec_step nested reg step ctx m = Some (Inr ctx, m)"
  by (auto simp add: exec_step_def evaluate_condition_def)

lemma exec_step_no_condition:
  "step_if_condition step = None \<or> step_if_condition step = Some [] \<Longrightarrow>
   exec_step nested reg step ctx m = step_body nested reg step ctx m"
  by (auto simp add: exec_step_def)

lemma exec_step_true:
  "step_if_condition step = Some c \<Longrightarrow> evaluate_condition c ctx = Inr True \<Longrightarrow>
   exec_step nested reg step ctx m = step_body nested reg step ctx m"
  by (auto simp add: exec_step_def)

lemma exec_step_error_condition:
  "exec_step nested reg step ctx m = Some (Inl e, m') \<Longrightarrow> step_if_condition step = Some c \<Longrightarrow>
   evaluate_condition c ctx = Inr True"
  using evaluate_condition_total[of c ctx]
  by (cases "c = []") (auto simp add: exec_step_def evaluate_condition_def split: bool.splits)


lemma evaluate_condition_eq:
  "c \<noteq> [] \<Longrightarrow> split_once ''=='' c = Some (lhs, rhs) \<Longrightarrow>
   resolve_value (strip lhs) ctx VNone = Inr l \<Longrightarrow> resolve_value (strip rhs) ctx VNone = Inr r \<Longrightarrow>
   evaluate_condition c ctx = Inr (py_str l = py_str r)"
  using try_branch_Some[of "''==''" c lhs rhs ctx l r "(=)"]
  by (simp add: evaluate_condition_def)

lemma evaluate_condition_ne:
  "c \<noteq> [] \<Longrightarrow> try_branch ''=='' (=) c ctx = None \<Longrightarrow> split_once ''!='' c = Some (lhs, rhs) \<Longrightarrow>
   resolve_value (strip lhs) ctx VNone = Inr l \<Longrightarrow> resolve_value (strip rhs) ctx VNone = Inr r \<Longrightarrow>
   evaluate_condition c ctx = Inr (py_str l \<noteq> py_str r)"
  using try_branch_Some[of "''!=''" c lhs rhs ctx l r "(\<noteq>)"]
  by (simp add: evaluate_condition_def)

lemma evaluate_condition_fallback:
  "c \<noteq> [] \<Longrightarrow> try_branch ''=='' (=) c ctx = None \<Longrightarrow> try_branch ''!='' (\<noteq>) c ctx = None \<Longrightarrow>
   evaluate_condition c ctx =
     Inr (case resolve_value c ctx VNone of Inr v \<Rightarrow> truthy v | Inl e \<Rightarrow> False)"
  by (simp add: evaluate_condition_def split: sum.splits)

subsection \<open>Evaluation never raises\<close>

text \<open>
  What the evaluation does, case by case.  An empty condition is true, and a step whose
  condition is absent or empty runs its body.  A split is at the first occurrence of
  the operator.  When the text contains \<^verbatim>\<open>==\<close> and both sides resolve, the result is
  the comparison of their \<^verbatim>\<open>str\<close>; likewise for \<^verbatim>\<open>!=\<close> when the first comparison gave
  nothing.  A comparison gives nothing exactly when its operator does not occur or a
  side fails to resolve; when both give nothing, the whole text is resolved and
  coerced to a boolean, and a failure there is false.  The evaluation always returns
  a boolean; a false condition leaves the context and the state as they are; and a
  step with a condition that ends in an exception had a true condition, so the
  exception is not from the condition.
\<close>

theorem condition_evaluation:
  "evaluate_condition [] ctx = Inr True
   \<and> (step_if_condition step = None \<or> step_if_condition step = Some []
        \<longrightarrow> exec_step nested reg step ctx m = step_body nested reg step ctx m)
   \<and> (split_once op c = Some (lhs, rhs)
        \<longrightarrow> c = lhs @ op @ rhs \<and> (\<forall>a b. c = a @ op @ b \<longrightarrow> length lhs \<le> length a))
   \<and> (c \<noteq> [] \<and> split_once ''=='' c = Some (lhs, rhs)
        \<and> resolve_value (strip lhs) ctx VNone = Inr l \<and> resolve_value (strip rhs) ctx VNone = Inr r
        \<longrightarrow> evaluate_condition c ctx = Inr (py_str l = py_str r))
   \<and> (c \<noteq> [] \<and> try_branch ''=='' (=) c ctx = None \<and> split_once ''!='' c = Some (lhs, rhs)
        \<and> resolve_value (strip lhs) ctx VNone = Inr l \<and> resolve_value (strip rhs) ctx VNone = Inr r
        \<longrightarrow> evaluate_condition c ctx = Inr (py_str l \<noteq> py_str r))
   \<and> (try_branch op cmp c ctx = None \<longleftrightarrow>
        (case split_once op c of
           None \<Rightarrow> True
         | Some (a, b) \<Rightarrow> (\<exists>e. resolve_value (strip a) ctx VNone = Inl e)
                          \<or> (\<exists>e. resolve_value (strip b) ctx VNone = Inl e)))
   \<and> (c \<noteq> [] \<and> try_branch ''=='' (=) c ctx = None \<and> try_branch ''!='' (\<noteq>) c ctx = None
        \<longrightarrow> evaluate_condition c ctx =
              Inr (case resolve_value c ctx VNone of Inr v \<Rightarrow> truthy v | Inl e \<Rightarrow> False))
   \<and> (\<exists>b. evaluate_condition c ctx = Inr b)
   \<and> (step_if_condition step = Some c \<and> evaluate_condition c ctx = Inr False
        \<longrightarrow> exec_step nested reg step ctx m = Some (Inr ctx, m))
   \<and> (step_if_condition step = Some c \<and> exec_step nested reg step ctx m = Some (Inl e, m')
        \<longrightarrow> evaluate_condition c ctx = Inr True)"
proof -
  have 1: "evaluate_condition [] ctx = Inr True" by (simp add: evaluate_condition_def)
  have 2: "step_if_condition step = None \<or> step_if_condition step = Some []
        \<longrightarrow> exec_step nested reg step ctx m = step_body nested reg step ctx m"
    using exec_step_no_condition by blast
  have 3: "split_once op c = Some (lhs, rhs)
        \<longrightarrow> c = lhs @ op @ rhs \<and> (\<forall>a b. c = a @ op @ b \<longrightarrow> length lhs \<le> length a)"
    using split_once_Some[of op c lhs rhs] by blast
  have 4: "c \<noteq> [] \<and> split_once ''=='' c = Some (lhs, rhs)
        \<and> resolve_value (strip lhs) ctx VNone = Inr l \<and> resolve_value (strip rhs) ctx VNone = Inr r
        \<longrightarrow> evaluate_condition c ctx = Inr (py_str l = py_str r)"
    using evaluate_condition_eq by blast
  have 5: "c \<noteq> [] \<and> try_branch ''=='' (=) c ctx = None \<and> split_once ''!='' c = Some (lhs, rhs)
        \<and> resolve_value (strip lhs) ctx VNone = Inr l \<and> resolve_value (strip rhs) ctx VNone = Inr r
        \<longrightarrow> evaluate_condition c ctx = Inr (py_str l \<noteq> py_str r)"
    using evaluate_condition_ne by blast
  have 6: "try_branch op cmp c ctx = None \<longleftrightarrow>
        (case split_once op c of
           None \<Rightarrow> True
         | Some (a, b) \<Rightarrow> (\<exists>e. resolve_value (strip a) ctx VNone = Inl e)
                          \<or> (\<exists>e. resolve_value (strip b) ctx VNone = Inl e))"
    by (rule try_branch_None)
  have 7: "c \<noteq> [] \<and> try_branch ''=='' (=) c ctx = None \<and> try_branch ''!='' (\<noteq>) c ctx = None
        \<longrightarrow> evaluate_condition c ctx =
              Inr (case resolve_value c ctx VNone of Inr v \<Rightarrow> truthy v | Inl e \<Rightarrow> False)"
    using evaluate_condition_fallback by blast
  have 8: "\<exists>b. evaluate_condition c ctx = Inr b" by (rule evaluate_condition_total)
  have 9: "step_if_condition step = Some c \<and> evaluate_condition c ctx = Inr False
        \<longrightarrow> exec_step nested reg step ctx m = Some (Inr ctx, m)"
    using exec_step_skip by blast
  have 10: "step_if_condition step = Some c \<and> exec_step nested reg step ctx m = Some (Inl e, m')
        \<longrightarrow> evaluate_condition c ctx = Inr True"
    using exec_step_error_condition by blast
  from 1 2 3 4 5 6 7 8 9 10 show ?thesis by (intro conjI)
qed

text \<open>
  The instances: an equality, an inequality, a variable that does not resolve, a
  split at the first of two operators, a step skipped for such a variable, a step
  with no condition, and a step that fails in its body under a true condition.
\<close>

theorem condition_evaluation_witness:
  "evaluate_condition ''$x == 1'' [(''x'', VInt 1)] = Inr True
   \<and> evaluate_condition ''$x != 1'' [(''x'', VInt 1)] = Inr False
   \<and> evaluate_condition ''$a.b'' [] = Inr False
   \<and> ''a==b==c'' = ''a'' @ ''=='' @ ''b==c''
   \<and> exec_step (execute 0 empty_registry) empty_registry
         \<lparr> step_id = ''s'', step_tool_id = ''t'', step_bind = [], step_foreach = None,
           step_outputs = [(''out'', ''str'')], step_if_condition = Some ''$a.b'' \<rparr>
         [] fresh_machine = Some (Inr [], fresh_machine)
   \<and> exec_step (execute 0 empty_registry) empty_registry
         \<lparr> step_id = ''s'', step_tool_id = ''t'', step_bind = [], step_foreach = None,
           step_outputs = [(''out'', ''str'')], step_if_condition = None \<rparr>
         [] fresh_machine
       = step_body (execute 0 empty_registry) empty_registry
         \<lparr> step_id = ''s'', step_tool_id = ''t'', step_bind = [], step_foreach = None,
           step_outputs = [(''out'', ''str'')], step_if_condition = None \<rparr>
         [] fresh_machine
   \<and> evaluate_condition ''true'' [] = Inr True"
proof -
  let ?ctx = "[(''x'', VInt 1)]"
  let ?skipped = "\<lparr> step_id = ''s'', step_tool_id = ''t'', step_bind = [], step_foreach = None,
           step_outputs = [(''out'', ''str'')], step_if_condition = Some ''$a.b'' \<rparr>"
  let ?plain = "\<lparr> step_id = ''s'', step_tool_id = ''t'', step_bind = [], step_foreach = None,
           step_outputs = [(''out'', ''str'')], step_if_condition = None \<rparr>"
  let ?failing = "\<lparr> step_id = ''s'', step_tool_id = ''t'', step_bind = [], step_foreach = Some ''$a.b'',
           step_outputs = [(''out'', ''str'')], step_if_condition = Some ''true'' \<rparr>"
  note t = condition_evaluation
  have s1: "split_once ''=='' ''$x == 1'' = Some (''$x '', '' 1'')" by code_simp
  have l1: "resolve_value (strip ''$x '') ?ctx VNone = Inr (VInt 1)" by code_simp
  have r1: "resolve_value (strip '' 1'') ?ctx VNone = Inr (VStr ''1'')" by code_simp
  have p1: "py_str (VInt 1) = py_str (VStr ''1'')" by code_simp
  have 1: "evaluate_condition ''$x == 1'' ?ctx = Inr True"
    using t[where c = "''$x == 1''" and lhs = "''$x ''" and rhs = "'' 1''" and ctx = ?ctx
          and l = "VInt 1" and r = "VStr ''1''",
        THEN conjunct2, THEN conjunct2, THEN conjunct2, THEN conjunct1] s1 l1 r1 p1
    by simp
  have n2: "try_branch ''=='' (=) ''$x != 1'' ?ctx = None" by code_simp
  have s2: "split_once ''!='' ''$x != 1'' = Some (''$x '', '' 1'')" by code_simp
  have 2: "evaluate_condition ''$x != 1'' ?ctx = Inr False"
    using t[where c = "''$x != 1''" and lhs = "''$x ''" and rhs = "'' 1''" and ctx = ?ctx
          and l = "VInt 1" and r = "VStr ''1''",
        THEN conjunct2, THEN conjunct2, THEN conjunct2, THEN conjunct2, THEN conjunct1] n2 s2 l1 r1 p1
    by simp
  have n3: "try_branch ''=='' (=) ''$a.b'' [] = None" by code_simp
  have m3: "try_branch ''!='' (\<noteq>) ''$a.b'' [] = None" by code_simp
  have f3: "resolve_value ''$a.b'' [] VNone
      = Inl (ValueError (''Could not resolve step '' @ quoted ''a'' @ '' in context.''))"
    by code_simp
  have 3: "evaluate_condition ''$a.b'' [] = Inr False"
    using t[where c = "''$a.b''" and ctx = "[]",
        THEN conjunct2, THEN conjunct2, THEN conjunct2, THEN conjunct2, THEN conjunct2,
        THEN conjunct2, THEN conjunct1] n3 m3 f3
    by simp
  have s4: "split_once ''=='' ''a==b==c'' = Some (''a'', ''b==c'')" by code_simp
  have 4: "''a==b==c'' = ''a'' @ ''=='' @ ''b==c''"
    using t[where c = "''a==b==c''" and op = "''==''" and lhs = "''a''" and rhs = "''b==c''",
        THEN conjunct2, THEN conjunct2, THEN conjunct1] s4
    by blast
  have 5: "exec_step (execute 0 empty_registry) empty_registry ?skipped [] fresh_machine
      = Some (Inr [], fresh_machine)"
    using t[where c = "''$a.b''" and ctx = "[]" and step = ?skipped,
        THEN conjunct2, THEN conjunct2, THEN conjunct2, THEN conjunct2, THEN conjunct2,
        THEN conjunct2, THEN conjunct2, THEN conjunct2, THEN conjunct1] 3
    by simp
  have 6: "exec_step (execute 0 empty_registry) empty_registry ?plain [] fresh_machine
      = step_body (execute 0 empty_registry) empty_registry ?plain [] fresh_machine"
    using t[where step = ?plain,
        THEN conjunct2, THEN conjunct1]
    by simp
  have c7: "evaluate_condition ''true'' [] = Inr True" by code_simp
  have e7: "exec_step (execute 0 empty_registry) empty_registry ?failing [] fresh_machine
      = Some (Inl (ValueError (''Could not resolve step '' @ quoted ''a'' @ '' in context.'')),
              fresh_machine)"
    by (simp add: exec_step_def step_body_def c7 f3)
  have 7: "evaluate_condition ''true'' [] = Inr True"
    using t[where c = "''true''" and ctx = "[]" and step = ?failing,
        THEN conjunct2, THEN conjunct2, THEN conjunct2, THEN conjunct2, THEN conjunct2,
        THEN conjunct2, THEN conjunct2, THEN conjunct2, THEN conjunct2] e7
    by simp
  from 1 2 3 4 5 6 7 show ?thesis by blast
qed

subsection \<open>An operand that does not resolve\<close>

text \<open>
  Claim C4 says that a condition that cannot be resolved is false, so that its step is
  skipped.  In an empty context the right operand of \<^verbatim>\<open>x == $a.b\<close> names a step that
  is not there and raises.  The comparison is given up, the text holds no \<^verbatim>\<open>!=\<close>, and
  the last attempt resolves the whole text: it does not start with \<^verbatim>\<open>$\<close>, so it is a
  string literal, and it is not empty.  The condition is true and the step runs, where
  the warning of \<^verbatim>\<open>_evaluate_condition\<close> announces a default of false.  With the
  operands exchanged the whole text starts with \<^verbatim>\<open>$\<close>, the last attempt raises as
  well, and the condition is false: that step is skipped.
\<close>

theorem unresolvable_operand_runs_step:
  "resolve_value ''$a.b'' [] VNone
     = Inl (ValueError (''Could not resolve step '' @ quoted ''a'' @ '' in context.''))
   \<and> try_branch ''=='' (=) ''x == $a.b'' [] = None
   \<and> try_branch ''!='' (\<noteq>) ''x == $a.b'' [] = None
   \<and> resolve_value ''x == $a.b'' [] VNone = Inr (VStr ''x == $a.b'')
   \<and> evaluate_condition ''x == $a.b'' [] = Inr True
   \<and> map_option (apsnd calls) (execute 1 test_registry guarded_pipeline [] test_machine)
       = Some (Inr [(''step2'', VDict [(''res'', VStr ''executed'')])],
               [(''print_msg'', [(''msg'', VStr ''Conditional'')])])
   \<and> evaluate_condition ''$a.b == x'' [] = Inr False
   \<and> map_option (apsnd calls) (execute 1 test_registry mirrored_pipeline [] test_machine)
       = Some (Inr [], [])"
  by code_simp

section \<open>The registry: what is registered is what is loaded\<close>

lemma map_of_dict_set: "map_of (dict_set k v d) k' = (if k' = k then Some v else map_of d k')"
  by (induction d) auto

lemma make_spec_asdict: "make_spec (spec_asdict s) = Inr s"
  by (simp add: make_spec_def spec_asdict_def get_default_def)

lemma make_metadata_to_dict: "make_metadata (to_dict m) = Inr m"
  by (simp add: make_metadata_def to_dict_def bindE_def subscript_def get_default_def
      make_spec_asdict)

lemma load_register: "load (register m reg) (tool_id m) = Inr (Some m)"
  by (simp add: load_def register_def map_of_dict_set make_metadata_to_dict bindE_def)

lemma load_register_other:
  "t \<noteq> tool_id m \<Longrightarrow> load (register m reg) t = load reg t"
  by (simp add: load_def register_def map_of_dict_set)

lemma load_absent: "map_of (tool_dirs reg) t = None \<Longrightarrow> load reg t = Inr None"
  by (simp add: load_def)

lemma make_spec_defaults:
  assumes "j_name sd \<noteq> None" "j_signature sd \<noteq> None" "j_docstring sd \<noteq> None"
    "j_inputs sd \<noteq> None" "j_outputs sd \<noteq> None" "j_failure_modes sd \<noteq> None"
    "j_deterministic sd \<noteq> None"
  shows "\<exists>s. make_spec sd = Inr s
     \<and> spec_imports s = (case j_imports sd of None \<Rightarrow> [] | Some x \<Rightarrow> x)
     \<and> semantic_tags s = (case j_semantic_tags sd of None \<Rightarrow> [] | Some x \<Rightarrow> x)"
  using assms by (simp add: make_spec_def get_default_def)

lemma make_metadata_defaults:
  assumes "make_spec sd = Inr s" "j_spec d = Some sd" "j_tool_id d \<noteq> None" "j_version d \<noteq> None"
    "j_created_at d \<noteq> None" "j_source_path d \<noteq> None" "j_tests_path d \<noteq> None"
    "j_test_results_path d \<noteq> None"
  shows "\<exists>md. make_metadata d = Inr md \<and> spec md = s
     \<and> dependencies md = (case j_dependencies d of None \<Rightarrow> Map.empty | Some x \<Rightarrow> x)
     \<and> security_policy md = (case j_security_policy d of None \<Rightarrow> [] | Some x \<Rightarrow> x)
     \<and> capability_profile md = (case j_capability_profile d of None \<Rightarrow> [] | Some x \<Rightarrow> x)
     \<and> model md = (case j_model d of None \<Rightarrow> [] | Some x \<Rightarrow> x)
     \<and> template_id md = (case j_template_id d of None \<Rightarrow> None | Some x \<Rightarrow> x)"
  using assms
  by (auto simp add: make_metadata_def bindE_def subscript_def get_default_def)

text \<open>
  Claim C8.  After \<^verbatim>\<open>register(m)\<close>, \<^verbatim>\<open>load(m.tool_id)\<close> returns \<open>m\<close> itself, so
  every field is equal.  Where the registry has no directory for a tool id,
  \<^verbatim>\<open>load\<close> returns \<^verbatim>\<open>None\<close> and does not raise.  A document that has the fields
  without defaults loads, and each of \<^verbatim>\<open>imports\<close>, \<^verbatim>\<open>semantic_tags\<close>,
  \<^verbatim>\<open>dependencies\<close>, \<^verbatim>\<open>security_policy\<close>, \<^verbatim>\<open>capability_profile\<close>, \<^verbatim>\<open>model\<close> and
  \<^verbatim>\<open>template_id\<close> that it lacks gets its default: the empty list, dictionary or
  string, or \<^verbatim>\<open>None\<close>.
\<close>

theorem register_then_load:
  "load (register m reg) (tool_id m) = Inr (Some m)
   \<and> (map_of (tool_dirs reg) t = None \<longrightarrow> load reg t = Inr None)
   \<and> (map_of (tool_dirs reg) t = Some d \<and> j_spec d = Some sd
        \<and> j_name sd \<noteq> None \<and> j_signature sd \<noteq> None \<and> j_docstring sd \<noteq> None
        \<and> j_inputs sd \<noteq> None \<and> j_outputs sd \<noteq> None \<and> j_failure_modes sd \<noteq> None
        \<and> j_deterministic sd \<noteq> None
        \<and> j_tool_id d \<noteq> None \<and> j_version d \<noteq> None \<and> j_created_at d \<noteq> None
        \<and> j_source_path d \<noteq> None \<and> j_tests_path d \<noteq> None \<and> j_test_results_path d \<noteq> None
      \<longrightarrow> (\<exists>md. load reg t = Inr (Some md)
            \<and> spec_imports (spec md) = (case j_imports sd of None \<Rightarrow> [] | Some x \<Rightarrow> x)
            \<and> semantic_tags (spec md) = (case j_semantic_tags sd of None \<Rightarrow> [] | Some x \<Rightarrow> x)
            \<and> dependencies md = (case j_dependencies d of None \<Rightarrow> Map.empty | Some x \<Rightarrow> x)
            \<and> security_policy md = (case j_security_policy d of None \<Rightarrow> [] | Some x \<Rightarrow> x)
            \<and> capability_profile md = (case j_capability_profile d of None \<Rightarrow> [] | Some x \<Rightarrow> x)
            \<and> model md = (case j_model d of None \<Rightarrow> [] | Some x \<Rightarrow> x)
            \<and> template_id md = (case j_template_id d of None \<Rightarrow> None | Some x \<Rightarrow> x)))"
proof (intro conjI impI)
  show "load (register m reg) (tool_id m) = Inr (Some m)" by (rule load_register)
next
  assume "map_of (tool_dirs reg) t = None"
  then show "load reg t = Inr None" by (rule load_absent)
next
  assume a: "map_of (tool_dirs reg) t = Some d \<and> j_spec d = Some sd
        \<and> j_name sd \<noteq> None \<and> j_signature sd \<noteq> None \<and> j_docstring sd \<noteq> None
        \<and> j_inputs sd \<noteq> None \<and> j_outputs sd \<noteq> None \<and> j_failure_modes sd \<noteq> None
        \<and> j_deterministic sd \<noteq> None
        \<and> j_tool_id d \<noteq> None \<and> j_version d \<noteq> None \<and> j_created_at d \<noteq> None
        \<and> j_source_path d \<noteq> None \<and> j_tests_path d \<noteq> None \<and> j_test_results_path d \<noteq> None"
  from a make_spec_defaults[of sd] obtain s where s: "make_spec sd = Inr s"
    "spec_imports s = (case j_imports sd of None \<Rightarrow> [] | Some x \<Rightarrow> x)"
    "semantic_tags s = (case j_semantic_tags sd of None \<Rightarrow> [] | Some x \<Rightarrow> x)"
    by blast
  from a s(1) make_metadata_defaults[of sd s d] obtain md where md: "make_metadata d = Inr md"
    "spec md = s"
    "dependencies md = (case j_dependencies d of None \<Rightarrow> Map.empty | Some x \<Rightarrow> x)"
    "security_policy md = (case j_security_policy d of None \<Rightarrow> [] | Some x \<Rightarrow> x)"
    "capability_profile md = (case j_capability_profile d of None \<Rightarrow> [] | Some x \<Rightarrow> x)"
    "model md = (case j_model d of None \<Rightarrow> [] | Some x \<Rightarrow> x)"
    "template_id md = (case j_template_id d of None \<Rightarrow> None | Some x \<Rightarrow> x)"
    by blast
  from a md(1) have "load reg t = Inr (Some md)" by (simp add: load_def bindE_def)
  with s md show "\<exists>md. load reg t = Inr (Some md)
            \<and> spec_imports (spec md) = (case j_imports sd of None \<Rightarrow> [] | Some x \<Rightarrow> x)
            \<and> semantic_tags (spec md) = (case j_semantic_tags sd of None \<Rightarrow> [] | Some x \<Rightarrow> x)
            \<and> dependencies md = (case j_dependencies d of None \<Rightarrow> Map.empty | Some x \<Rightarrow> x)
            \<and> security_policy md = (case j_security_policy d of None \<Rightarrow> [] | Some x \<Rightarrow> x)
            \<and> capability_profile md = (case j_capability_profile d of None \<Rightarrow> [] | Some x \<Rightarrow> x)
            \<and> model md = (case j_model d of None \<Rightarrow> [] | Some x \<Rightarrow> x)
            \<and> template_id md = (case j_template_id d of None \<Rightarrow> None | Some x \<Rightarrow> x)"
    by auto
qed

text \<open>
  The instances: a tool id that was never registered, and a document with none of
  the optional fields.
\<close>

theorem register_then_load_witness:
  "load empty_registry ''missing'' = Inr None
   \<and> (\<exists>md. load \<lparr> tool_dirs = [(''t'',
              \<lparr> j_tool_id = Some ''t'', j_version = Some ''1'', j_created_at = Some [],
                j_spec = Some \<lparr> j_name = Some ''f'', j_signature = Some [], j_docstring = Some [],
                    j_inputs = Some Map.empty, j_outputs = Some Map.empty,
                    j_failure_modes = Some [], j_deterministic = Some False,
                    j_imports = None, j_semantic_tags = None \<rparr>,
                j_source_path = Some ''f.py'', j_tests_path = Some ''t.py'',
                j_test_results_path = Some ''r.txt'', j_dependencies = None,
                j_security_policy = None, j_capability_profile = None, j_model = None,
                j_template_id = None \<rparr>)],
            cached_workflows = [], modules = Map.empty \<rparr> ''t'' = Inr (Some md)
        \<and> spec_imports (spec md) = [] \<and> semantic_tags (spec md) = []
        \<and> dependencies md = Map.empty \<and> security_policy md = [] \<and> capability_profile md = []
        \<and> model md = [] \<and> template_id md = None)"
proof -
  let ?sd = "\<lparr> j_name = Some ''f'', j_signature = Some [], j_docstring = Some [],
                    j_inputs = Some Map.empty, j_outputs = Some Map.empty,
                    j_failure_modes = Some [], j_deterministic = Some False,
                    j_imports = None, j_semantic_tags = None \<rparr>"
  let ?d = "\<lparr> j_tool_id = Some ''t'', j_version = Some ''1'', j_created_at = Some [],
                j_spec = Some ?sd,
                j_source_path = Some ''f.py'', j_tests_path = Some ''t.py'',
                j_test_results_path = Some ''r.txt'', j_dependencies = None,
                j_security_policy = None, j_capability_profile = None, j_model = None,
                j_template_id = None \<rparr>"
  let ?reg = "\<lparr> tool_dirs = [(''t'', ?d)], cached_workflows = [], modules = Map.empty \<rparr>"
  have 1: "load empty_registry ''missing'' = Inr None"
    using register_then_load[where reg = empty_registry and t = "''missing''",
        THEN conjunct2, THEN conjunct1]
    by (simp add: empty_registry_def)
  have 2: "\<exists>md. load ?reg ''t'' = Inr (Some md)
        \<and> spec_imports (spec md) = [] \<and> semantic_tags (spec md) = []
        \<and> dependencies md = Map.empty \<and> security_policy md = [] \<and> capability_profile md = []
        \<and> model md = [] \<and> template_id md = None"
    using register_then_load[where reg = ?reg and t = "''t''" and d = ?d and sd = ?sd,
        THEN conjunct2, THEN conjunct2]
    by simp
  from 1 2 show ?thesis by blast
qed

section \<open>The engine's cache\<close>

subsection \<open>One tool call\<close>


















subsection \<open>The registry of the tests\<close>

lemma find_workflow_no_cached: "cached_workflows reg = [] \<Longrightarrow> find_workflow_by_id reg tid = None"
  by (simp add: find_workflow_by_id_def)

lemma tool_dirs_register_empty:
  "tool_dirs (register md empty_registry) = [(tool_id md, to_dict md)]"
  by (simp add: register_def empty_registry_def)

lemma select_tool_single:
  "template_id md = Some tid \<Longrightarrow> select_tool (register md empty_registry) sid tid = Inr (tool_id md)"
  by (simp add: select_tool_def find_by_template_id_def tool_dirs_register_empty load_register
      bindE_def)

lemma select_tool_by_name:
  "template_id md \<noteq> Some tid \<Longrightarrow> name (spec md) = tid \<Longrightarrow>
   select_tool (register md empty_registry) sid tid = Inr (tool_id md)"
  by (simp add: select_tool_def find_by_template_id_def list_tools_def tool_dirs_register_empty
      load_register bindE_def)

lemma test_registry_facts:
  "find_workflow_by_id test_registry tid = None"
  "select_tool test_registry sid ''print_msg_template'' = Inr ''print_msg''"
  "load test_registry ''print_msg'' = Inr (Some print_msg_meta)"
  "is_pure_spec (spec print_msg_meta)"
proof -
  show "find_workflow_by_id test_registry tid = None"
    by (simp add: find_workflow_no_cached test_registry_def register_def empty_registry_def)
  have t: "tool_id print_msg_meta = ''print_msg''" by (simp add: print_msg_meta_def)
  have "template_id print_msg_meta = Some ''print_msg_template''" by (simp add: print_msg_meta_def)
  from select_tool_single[OF this] show "select_tool test_registry sid ''print_msg_template'' = Inr ''print_msg''"
    by (simp add: test_registry_def t)
  show "load test_registry ''print_msg'' = Inr (Some print_msg_meta)"
    using load_register[of print_msg_meta empty_registry] by (simp add: test_registry_def t)
  show "is_pure_spec (spec print_msg_meta)"
    by (simp add: is_pure_spec_def print_msg_meta_def print_msg_spec_def)
qed


subsection \<open>Memoization\<close>



subsection \<open>Keys are made of strings\<close>







section \<open>Exceptions of a step\<close>

subsection \<open>Prefixes of the two loops\<close>

lemma run_steps_append:
  "run_steps nested reg pre ctx m = Some (Inr ctx1, m1) \<Longrightarrow>
   run_steps nested reg (pre @ rest) ctx m = run_steps nested reg rest ctx1 m1"
proof (induction pre arbitrary: ctx m)
  case Nil then show ?case by simp
next
  case (Cons s pre)
  from Cons.prems obtain c0 m0 where
    e: "exec_step nested reg s ctx m = Some (Inr c0, m0)"
    and r: "run_steps nested reg pre c0 m0 = Some (Inr ctx1, m1)"
    by (auto split: option.splits sum.splits prod.splits)
  from Cons.IH[OF r] e show ?case by simp
qed

lemma run_items_append:
  "run_items nested reg step ctx finished outs m = Some (Inr outs1, m1) \<Longrightarrow>
   run_items nested reg step ctx (finished @ rest) outs m = run_items nested reg step ctx rest outs1 m1"
proof (induction finished arbitrary: outs m)
  case Nil then show ?case by simp
next
  case (Cons item items)
  from Cons.prems obtain kw r0 m0 where
    b: "bind_params (step_bind step) ctx item [] = Inr kw"
    and l: "run_step_logic nested reg (step_id step) (step_tool_id step) kw m = Some (Inr r0, m0)"
    and r: "run_items nested reg step ctx items (outs @ [r0]) m0 = Some (Inr outs1, m1)"
    by (auto split: option.splits sum.splits prod.splits)
  from Cons.IH[OF r] b l show ?case by simp
qed

lemma run_steps_abort:
  "exec_step nested reg step ctx m = Some (Inl e, m') \<Longrightarrow>
   run_steps nested reg (step # post) ctx m = Some (Inl e, m')"
  by simp

lemma exec_step_runs_body:
  "step_if_condition step = None \<or> step_if_condition step = Some []
     \<or> (\<exists>c. step_if_condition step = Some c \<and> evaluate_condition c ctx = Inr True) \<Longrightarrow>
   exec_step nested reg step ctx m = step_body nested reg step ctx m"
  using exec_step_no_condition[of step nested reg ctx m] exec_step_true[of step _ ctx nested reg m]
  by blast

lemma step_body_single_error:
  "step_foreach step = None \<or> step_foreach step = Some [] \<Longrightarrow>
   bind_params (step_bind step) ctx VNone [] = Inr kw \<Longrightarrow>
   run_step_logic nested reg (step_id step) (step_tool_id step) kw m = Some (Inl e, m') \<Longrightarrow>
   step_body nested reg step ctx m = Some (Inl e, m')"
  by (auto simp: step_body_def)

lemma run_items_error:
  "bind_params (step_bind step) ctx item [] = Inr kw \<Longrightarrow>
   run_step_logic nested reg (step_id step) (step_tool_id step) kw m = Some (Inl e, m') \<Longrightarrow>
   run_items nested reg step ctx (item # todo) outs m = Some (Inl e, m')"
  by simp

lemma step_body_foreach_error:
  assumes "step_foreach step = Some fe" "fe \<noteq> []"
    and "resolve_value fe ctx VNone = Inr (VList (finished @ item # todo))"
    and "run_items nested reg step ctx finished [] m = Some (Inr outs, m1)"
    and "bind_params (step_bind step) ctx item [] = Inr kw"
    and "run_step_logic nested reg (step_id step) (step_tool_id step) kw m1 = Some (Inl e, m')"
  shows "step_body nested reg step ctx m = Some (Inl e, m')"
proof -
  have "run_items nested reg step ctx (finished @ item # todo) [] m = Some (Inl e, m')"
    using run_items_append[OF assms(4), of "item # todo"] run_items_error[OF assms(5,6)]
    by simp
  with assms(1,2,3) show ?thesis by (simp add: step_body_def)
qed

lemma run_step_logic_nested_error:
  "find_workflow_by_id reg tid = Some sub \<Longrightarrow> nested sub kw m = Some (Inl e, m') \<Longrightarrow>
   run_step_logic nested reg sid tid kw m = Some (Inl e, m')"
  by (simp add: run_step_logic_def)

subsection \<open>Running the tool of the tests\<close>

lemma load_each_tool_dirs:
  "tool_dirs reg = tool_dirs reg' \<Longrightarrow> load_each reg ds = load_each reg' ds"
  by (induction ds) (simp_all add: load_def)

lemma select_tool_tool_dirs:
  "tool_dirs reg = tool_dirs reg' \<Longrightarrow> select_tool reg sid tid = select_tool reg' sid tid"
proof -
  assume a: "tool_dirs reg = tool_dirs reg'"
  have f: "find_by_template_id reg tid = find_by_template_id reg' tid"
    using load_each_tool_dirs[OF a] a by (simp add: find_by_template_id_def)
  have l: "list_tools reg = list_tools reg'"
    using load_each_tool_dirs[OF a] a by (simp add: list_tools_def)
  show ?thesis unfolding select_tool_def f l by (rule refl)
qed

lemma load_tool_dirs: "tool_dirs reg = tool_dirs reg' \<Longrightarrow> load reg t = load reg' t"
  by (simp add: load_def)

lemma print_msg_logic:
  assumes "tool_dirs reg = tool_dirs test_registry"
    and "find_workflow_by_id reg ''print_msg_template'' = None"
    and "executable_cache m ''print_msg'' = Some f"
    and "execution_cache m (hash_inputs ''print_msg'' kw) = None"
  shows "run_step_logic nested reg sid ''print_msg_template'' kw m =
     Some (case f (calls m) kw of
             Inl e \<Rightarrow> (Inl e, m\<lparr> calls := calls m @ [(''print_msg'', kw)] \<rparr>)
           | Inr r \<Rightarrow> (Inr r, m\<lparr> calls := calls m @ [(''print_msg'', kw)],
                   execution_cache := (execution_cache m)(hash_inputs ''print_msg'' kw \<mapsto> r) \<rparr>))"
proof -
  have s: "select_tool reg sid ''print_msg_template'' = Inr ''print_msg''"
    using select_tool_tool_dirs[OF assms(1)] test_registry_facts(2) by simp
  have l: "load reg ''print_msg'' = Inr (Some print_msg_meta)"
    using load_tool_dirs[OF assms(1)] test_registry_facts(3) by simp
  have g: "get_executable reg ''print_msg'' m = (Inr (Some f), m)"
    using assms(3) by (simp add: get_executable_def)
  show ?thesis
    using assms(2,4) s l g test_registry_facts(4)
    by (simp add: run_step_logic_def run_tool_def split: sum.splits)
qed

lemma nesting_registry_facts:
  "tool_dirs nesting_registry = tool_dirs test_registry"
  "find_workflow_by_id nesting_registry ''print_msg_template'' = None"
  "find_workflow_by_id nesting_registry ''test_pipeline'' = Some test_pipeline"
  by (simp_all add: nesting_registry_def find_workflow_by_id_def test_pipeline_def)

lemma failing_machine_facts:
  "executable_cache failing_machine ''print_msg'' = Some failing_tool"
  "execution_cache failing_machine k = None"
  "calls failing_machine = []"
  by (simp_all add: failing_machine_def fresh_machine_def)

lemma bind_hello: "bind_params (step_bind step1) ctx VNone [] = Inr [(''msg'', VStr ''Hello'')]"
proof -
  have "resolve_value ([CHR 0x27] @ ''Hello'' @ [CHR 0x27]) ctx VNone = Inr (VStr ''Hello'')"
    using resolve_quoted[of "CHR 0x27" "''Hello''" ctx VNone] by simp
  then show ?thesis by (simp add: step1_def)
qed

lemma step1_fails:
  assumes "tool_dirs reg = tool_dirs test_registry"
    and "find_workflow_by_id reg ''print_msg_template'' = None"
  shows "run_step_logic nested reg (step_id step1) (step_tool_id step1) [(''msg'', VStr ''Hello'')]
       failing_machine
     = Some (Inl (ValueError ''boom''),
         failing_machine\<lparr> calls := [(''print_msg'', [(''msg'', VStr ''Hello'')])] \<rparr>)"
proof -
  have "step_tool_id step1 = ''print_msg_template''" by (simp add: step1_def)
  then show ?thesis
    using print_msg_logic[where kw = "[(''msg'', VStr ''Hello'')]" and nested = nested
          and sid = "step_id step1", OF assms failing_machine_facts(1,2)]
    by (simp add: failing_tool_def failing_machine_facts)
qed

lemma test_pipeline_fails:
  assumes "tool_dirs reg = tool_dirs test_registry"
    and "find_workflow_by_id reg ''print_msg_template'' = None"
  shows "execute (Suc depth) reg test_pipeline ctx failing_machine
     = Some (Inl (ValueError ''boom''),
         failing_machine\<lparr> calls := [(''print_msg'', [(''msg'', VStr ''Hello'')])] \<rparr>)"
proof -
  have c: "step_if_condition step1 = None" "step_foreach step1 = None"
    by (simp_all add: step1_def)
  have "step_body (execute depth reg) reg step1 ctx failing_machine
     = Some (Inl (ValueError ''boom''),
         failing_machine\<lparr> calls := [(''print_msg'', [(''msg'', VStr ''Hello'')])] \<rparr>)"
    using step1_fails[OF assms]
    by (simp add: step_body_def c bind_hello)
  then have "exec_step (execute depth reg) reg step1 ctx failing_machine
     = Some (Inl (ValueError ''boom''),
         failing_machine\<lparr> calls := [(''print_msg'', [(''msg'', VStr ''Hello'')])] \<rparr>)"
    by (simp add: exec_step_def c)
  then show ?thesis by (simp add: test_pipeline_def)
qed

subsection \<open>An exception ends the run\<close>

text \<open>
  Claim C2, as the code has it.  Let the steps before a step complete, and let the step
  not be skipped.  If its logic raises, in its single execution or for an item of its
  \<^verbatim>\<open>foreach\<close> list after the items before completed, then \<^verbatim>\<open>execute\<close> returns
  that same exception, in the state that the failing logic left: neither the rest of
  the items nor the later steps run, and nothing is tried again.  An exception of a
  nested workflow is in the same way the exception of the step that runs it.  The
  exception is raised again as it was caught; the id of the step is printed only.
\<close>

theorem exception_aborts:
  assumes "steps flow = pre @ step # post"
    and "run_steps (execute depth reg) reg pre inputs m = Some (Inr ctx, m1)"
    and "step_if_condition step = None \<or> step_if_condition step = Some []
         \<or> (\<exists>c. step_if_condition step = Some c \<and> evaluate_condition c ctx = Inr True)"
  shows
    "((step_foreach step = None \<or> step_foreach step = Some [])
       \<and> bind_params (step_bind step) ctx VNone [] = Inr kw
       \<and> run_step_logic (execute depth reg) reg (step_id step) (step_tool_id step) kw m1
           = Some (Inl e, m2)
      \<longrightarrow> execute (Suc depth) reg flow inputs m = Some (Inl e, m2))
     \<and> (step_foreach step = Some fe \<and> fe \<noteq> []
         \<and> resolve_value fe ctx VNone = Inr (VList (finished @ item # todo))
         \<and> run_items (execute depth reg) reg step ctx finished [] m1 = Some (Inr outs, m1')
         \<and> bind_params (step_bind step) ctx item [] = Inr kw
         \<and> run_step_logic (execute depth reg) reg (step_id step) (step_tool_id step) kw m1'
             = Some (Inl e, m2)
      \<longrightarrow> execute (Suc depth) reg flow inputs m = Some (Inl e, m2))
     \<and> (find_workflow_by_id reg (step_tool_id step) = Some sub
         \<and> execute depth reg sub kw m1 = Some (Inl e, m2)
      \<longrightarrow> run_step_logic (execute depth reg) reg (step_id step) (step_tool_id step) kw m1
            = Some (Inl e, m2))"
proof -
  have abort: "execute (Suc depth) reg flow inputs m = Some (Inl e, m2)"
    if "step_body (execute depth reg) reg step ctx m1 = Some (Inl e, m2)"
  proof -
    from that exec_step_runs_body[OF assms(3)]
    have "exec_step (execute depth reg) reg step ctx m1 = Some (Inl e, m2)" by simp
    then have "run_steps (execute depth reg) reg (step # post) ctx m1 = Some (Inl e, m2)"
      by (rule run_steps_abort)
    with run_steps_append[OF assms(2), of "step # post"] assms(1) show ?thesis by simp
  qed
  have 1: "(step_foreach step = None \<or> step_foreach step = Some [])
       \<and> bind_params (step_bind step) ctx VNone [] = Inr kw
       \<and> run_step_logic (execute depth reg) reg (step_id step) (step_tool_id step) kw m1
           = Some (Inl e, m2)
      \<longrightarrow> execute (Suc depth) reg flow inputs m = Some (Inl e, m2)"
    using step_body_single_error[of step ctx kw "execute depth reg" reg m1 e m2] abort by blast
  have 2: "step_foreach step = Some fe \<and> fe \<noteq> []
         \<and> resolve_value fe ctx VNone = Inr (VList (finished @ item # todo))
         \<and> run_items (execute depth reg) reg step ctx finished [] m1 = Some (Inr outs, m1')
         \<and> bind_params (step_bind step) ctx item [] = Inr kw
         \<and> run_step_logic (execute depth reg) reg (step_id step) (step_tool_id step) kw m1'
             = Some (Inl e, m2)
      \<longrightarrow> execute (Suc depth) reg flow inputs m = Some (Inl e, m2)"
    using step_body_foreach_error[of step fe ctx finished item todo "execute depth reg" reg m1
        outs m1' kw e m2] abort by blast
  have 3: "find_workflow_by_id reg (step_tool_id step) = Some sub
         \<and> execute depth reg sub kw m1 = Some (Inl e, m2)
      \<longrightarrow> run_step_logic (execute depth reg) reg (step_id step) (step_tool_id step) kw m1
            = Some (Inl e, m2)"
    using run_step_logic_nested_error by blast
  from 1 2 3 show ?thesis by (intro conjI)
qed

text \<open>
  The instances, with the callable that raises: the pipeline of the tests stops in its
  first step; a loop over two items stops at the first, and the step after it does
  not run; and the step that runs the pipeline as a nested workflow gets its
  exception.
\<close>

theorem exception_aborts_witness:
  "execute 1 test_registry test_pipeline [(''do_it'', VBool True)] failing_machine
     = Some (Inl (ValueError ''boom''),
         failing_machine\<lparr> calls := [(''print_msg'', [(''msg'', VStr ''Hello'')])] \<rparr>)
   \<and> execute 1 test_registry \<lparr> pipeline_id = ''loop'', description = [], steps = [each_step, step1] \<rparr>
       [(''xs'', VList [VInt 1, VInt 2])] failing_machine
     = Some (Inl (ValueError ''boom''),
         failing_machine\<lparr> calls := [(''print_msg'', [(''x'', VInt 1)])] \<rparr>)
   \<and> run_step_logic (execute 1 nesting_registry) nesting_registry ''outer'' ''test_pipeline''
       [(''do_it'', VBool True)] failing_machine
     = Some (Inl (ValueError ''boom''),
         failing_machine\<lparr> calls := [(''print_msg'', [(''msg'', VStr ''Hello'')])] \<rparr>)"
proof -
  let ?hello = "failing_machine\<lparr> calls := [(''print_msg'', [(''msg'', VStr ''Hello'')])] \<rparr>"
  let ?loop = "\<lparr> pipeline_id = ''loop'', description = [], steps = [each_step, step1] \<rparr>"
  let ?outer = "\<lparr> pipeline_id = ''outer'', description = [], steps = [outer_step] \<rparr>"
  let ?xs = "[(''xs'', VList [VInt 1, VInt 2])]"
  have 1: "execute 1 test_registry test_pipeline [(''do_it'', VBool True)] failing_machine
     = Some (Inl (ValueError ''boom''), ?hello)"
    using exception_aborts[where flow = test_pipeline and pre = "[]" and step = step1
          and post = "[step2]" and depth = 0 and reg = test_registry
          and inputs = "[(''do_it'', VBool True)]" and ctx = "[(''do_it'', VBool True)]"
          and m = failing_machine and ?m1.0 = failing_machine
          and kw = "[(''msg'', VStr ''Hello'')]" and e = "ValueError ''boom''" and ?m2.0 = ?hello,
        THEN conjunct1]
      step1_fails[OF refl test_registry_facts(1), of "execute 0 test_registry"]
      bind_hello[of "[(''do_it'', VBool True)]"]
    by (simp add: test_pipeline_def step1_def)
  have each: "step_id each_step = ''each''" "step_tool_id each_step = ''print_msg_template''"
    "step_foreach each_step = Some ''$xs''" "step_if_condition each_step = None"
    "step_bind each_step = [(''x'', StepBinding ''$item'')]"
    by (simp_all add: each_step_def)
  have r: "resolve_value ''$xs'' ?xs VNone = Inr (VList ([] @ VInt 1 # [VInt 2]))" by code_simp
  have b: "bind_params (step_bind each_step) ?xs (VInt 1) [] = Inr [(''x'', VInt 1)]"
    unfolding each by code_simp
  have f: "run_step_logic (execute 0 test_registry) test_registry (step_id each_step)
      (step_tool_id each_step) [(''x'', VInt 1)] failing_machine
     = Some (Inl (ValueError ''boom''), failing_machine\<lparr> calls := [(''print_msg'', [(''x'', VInt 1)])] \<rparr>)"
    using print_msg_logic[where kw = "[(''x'', VInt 1)]" and nested = "execute 0 test_registry"
          and sid = "step_id each_step", OF refl test_registry_facts(1) failing_machine_facts(1,2)]
    by (simp add: each failing_tool_def failing_machine_facts)
  have 2: "execute 1 test_registry ?loop ?xs failing_machine
     = Some (Inl (ValueError ''boom''), failing_machine\<lparr> calls := [(''print_msg'', [(''x'', VInt 1)])] \<rparr>)"
    using exception_aborts[where flow = ?loop and pre = "[]" and step = each_step
          and post = "[step1]" and depth = 0 and reg = test_registry
          and inputs = ?xs and ctx = ?xs
          and m = failing_machine and ?m1.0 = failing_machine and fe = "''$xs''"
          and finished = "[]" and item = "VInt 1" and todo = "[VInt 2]" and outs = "[]"
          and m1' = failing_machine
          and kw = "[(''x'', VInt 1)]" and e = "ValueError ''boom''"
          and ?m2.0 = "failing_machine\<lparr> calls := [(''print_msg'', [(''x'', VInt 1)])] \<rparr>",
        THEN conjunct2, THEN conjunct1]
      r b f
    by (simp add: each)
  have sub: "execute 1 nesting_registry test_pipeline [(''do_it'', VBool True)] failing_machine
     = Some (Inl (ValueError ''boom''), ?hello)"
    using test_pipeline_fails[OF nesting_registry_facts(1,2), of 0] by simp
  have 3: "run_step_logic (execute 1 nesting_registry) nesting_registry ''outer'' ''test_pipeline''
       [(''do_it'', VBool True)] failing_machine
     = Some (Inl (ValueError ''boom''), ?hello)"
    using exception_aborts[where flow = ?outer and pre = "[]" and step = outer_step
          and post = "[]" and depth = 1 and reg = nesting_registry
          and inputs = "[(''flag'', VBool True)]" and ctx = "[(''flag'', VBool True)]"
          and m = failing_machine and ?m1.0 = failing_machine and sub = test_pipeline
          and kw = "[(''do_it'', VBool True)]" and e = "ValueError ''boom''" and ?m2.0 = ?hello,
        THEN conjunct2, THEN conjunct2]
      sub nesting_registry_facts(3)
    by (simp add: outer_step_def)
  from 1 2 3 show ?thesis by blast
qed

text \<open>
  Claim C2 as stated fails: the exception that leaves the pipeline of the tests is the
  one the callable raised, and its text does not have the id of the step.
\<close>

theorem exception_not_annotated_counterexample:
  "execute 1 test_registry test_pipeline [(''do_it'', VBool True)] failing_machine
     = Some (Inl (ValueError ''boom''),
         failing_machine\<lparr> calls := [(''print_msg'', [(''msg'', VStr ''Hello'')])] \<rparr>)
   \<and> \<not> spec_annotated_with ''step1'' (ValueError ''boom'')"
proof -
  have n: "\<not> spec_annotated_with ''step1'' (ValueError ''boom'')" by code_simp
  have "execute (Suc 0) test_registry test_pipeline [(''do_it'', VBool True)] failing_machine
     = Some (Inl (ValueError ''boom''),
         failing_machine\<lparr> calls := [(''print_msg'', [(''msg'', VStr ''Hello'')])] \<rparr>)"
    by (rule test_pipeline_fails[OF refl test_registry_facts(1)])
  with n show ?thesis by simp
qed

section \<open>Iteration\<close>

subsection \<open>The loop over the items\<close>



lemma step_body_list:
  assumes "step_foreach step = Some fe" "fe \<noteq> []" "resolve_value fe ctx VNone = Inr (VList items)"
    and "step_body nested reg step ctx m = Some (Inr ctx', m')"
  shows "\<exists>res. run_items nested reg step ctx items [] m = Some (Inr res, m')
      \<and> ctx' = store_output step (VList res) ctx"
  using assms by (auto simp: step_body_def split: option.splits sum.splits prod.splits)


lemma dict_set_keys: "fst ` set (dict_set k v d) = insert k (fst ` set d)"
  by (induction d) force+

lemma dict_set_distinct: "distinct (map fst d) \<Longrightarrow> distinct (map fst (dict_set k v d))"
proof (induction d)
  case Nil then show ?case by simp
next
  case (Cons p d)
  then show ?case using dict_set_keys[of k v d] by (cases p) auto
qed





subsection \<open>A \<^verbatim>\<open>foreach\<close> step\<close>




section \<open>The final context\<close>

subsection \<open>What a step writes\<close>

lemma store_output_lookup:
  "map_of (store_output s v ctx) k =
     (if step_outputs s \<noteq> [] \<and> k = step_id s
      then Some (VDict [(fst (hd (step_outputs s)), v)]) else map_of ctx k)"
  by (cases "step_outputs s") (auto simp: store_output_def map_of_dict_set)

lemma store_output_keys:
  "fst ` set (store_output s v ctx)
     = (if step_outputs s \<noteq> [] then insert (step_id s) (fst ` set ctx) else fst ` set ctx)"
proof (cases "step_outputs s")
  case Nil
  then show ?thesis by (simp add: store_output_def)
next
  case (Cons p others)
  obtain out ty where "p = (out, ty)" by (cases p)
  with Cons have "store_output s v ctx = dict_set (step_id s) (VDict [(out, v)]) ctx"
    by (simp add: store_output_def)
  with Cons show ?thesis by (simp add: dict_set_keys)
qed

lemma store_output_distinct:
  "distinct (map fst ctx) \<Longrightarrow> distinct (map fst (store_output s v ctx))"
  by (cases "step_outputs s") (auto simp: store_output_def dict_set_distinct)

lemma store_output_none: "step_outputs s = [] \<Longrightarrow> store_output s v ctx = ctx"
  by (simp add: store_output_def)

lemma step_body_result:
  assumes "step_body nested reg s ctx m = Some (Inr ctx2, m2)"
  shows "\<exists>v. ctx2 = store_output s v ctx
     \<and> (((step_foreach s = None \<or> step_foreach s = Some [])
          \<and> (\<exists>kw. bind_params (step_bind s) ctx VNone [] = Inr kw
               \<and> run_step_logic nested reg (step_id s) (step_tool_id s) kw m = Some (Inr v, m2)))
        \<or> (\<exists>fe items rs. step_foreach s = Some fe \<and> fe \<noteq> []
              \<and> resolve_value fe ctx VNone = Inr (VList items) \<and> v = VList rs
              \<and> run_items nested reg s ctx items [] m = Some (Inr rs, m2)))"
proof (cases "step_foreach s \<noteq> None \<and> step_foreach s \<noteq> Some []")
  case True
  then obtain fe where fe: "step_foreach s = Some fe" "fe \<noteq> []" by auto
  from assms fe obtain items where r: "resolve_value fe ctx VNone = Inr (VList items)"
    by (auto simp: step_body_def split: sum.splits pyval.splits)
  from step_body_list[OF fe r assms] fe r show ?thesis by blast
next
  case False
  with assms obtain kw v where "bind_params (step_bind s) ctx VNone [] = Inr kw"
    "run_step_logic nested reg (step_id s) (step_tool_id s) kw m = Some (Inr v, m2)"
    "ctx2 = store_output s v ctx"
    by (auto simp: step_body_def split: sum.splits option.splits prod.splits)
  moreover from False have "step_foreach s = None \<or> step_foreach s = Some []" by auto
  ultimately have "ctx2 = store_output s v ctx
     \<and> (((step_foreach s = None \<or> step_foreach s = Some [])
          \<and> (\<exists>kw. bind_params (step_bind s) ctx VNone [] = Inr kw
               \<and> run_step_logic nested reg (step_id s) (step_tool_id s) kw m = Some (Inr v, m2)))
        \<or> (\<exists>fe items rs. step_foreach s = Some fe \<and> fe \<noteq> []
              \<and> resolve_value fe ctx VNone = Inr (VList items) \<and> v = VList rs
              \<and> run_items nested reg s ctx items [] m = Some (Inr rs, m2)))"
    by blast
  then show ?thesis ..
qed

lemma exec_step_cases:
  assumes "exec_step nested reg s ctx m = Some (Inr ctx2, m2)"
  shows "(\<exists>c. step_if_condition s = Some c \<and> evaluate_condition c ctx = Inr False
            \<and> ctx2 = ctx \<and> m2 = m)
       \<or> step_body nested reg s ctx m = Some (Inr ctx2, m2)"
proof (cases "step_if_condition s")
  case None
  with assms show ?thesis by (simp add: exec_step_def)
next
  case (Some c)
  show ?thesis
  proof (cases "c = []")
    case True
    with Some assms show ?thesis by (simp add: exec_step_def)
  next
    case False
    from evaluate_condition_total[of c ctx] obtain b where b: "evaluate_condition c ctx = Inr b"
      by blast
    with Some False assms show ?thesis by (cases b) (simp_all add: exec_step_def)
  qed
qed

lemma exec_step_context:
  assumes "exec_step nested reg s ctx m = Some (Inr ctx2, m2)"
  shows "ctx2 = ctx \<or> (\<exists>v. ctx2 = store_output s v ctx)"
  using exec_step_cases[OF assms] step_body_result[of nested reg s ctx m ctx2 m2] by blast

lemma run_steps_split:
  "run_steps nested reg (pre @ s # post) ctx m = Some (Inr ctx', m') \<Longrightarrow>
   \<exists>c1 m1 c2 m2. run_steps nested reg pre ctx m = Some (Inr c1, m1)
      \<and> exec_step nested reg s c1 m1 = Some (Inr c2, m2)
      \<and> run_steps nested reg post c2 m2 = Some (Inr ctx', m')"
proof (induction pre arbitrary: ctx m)
  case Nil
  then show ?case by (auto split: option.splits sum.splits prod.splits)
next
  case (Cons p pre)
  from Cons.prems obtain c0 m0 where
    e: "exec_step nested reg p ctx m = Some (Inr c0, m0)"
    and r: "run_steps nested reg (pre @ s # post) c0 m0 = Some (Inr ctx', m')"
    by (auto split: option.splits sum.splits prod.splits)
  from Cons.IH[OF r] e show ?case by auto
qed

lemma run_steps_lookup:
  "run_steps nested reg ss ctx m = Some (Inr ctx', m') \<Longrightarrow>
   \<forall>s \<in> set ss. step_outputs s \<noteq> [] \<longrightarrow> step_id s \<noteq> k \<Longrightarrow>
   map_of ctx' k = map_of ctx k"
proof (induction ss arbitrary: ctx m)
  case Nil then show ?case by simp
next
  case (Cons s ss)
  from Cons.prems(1) obtain c0 m0 where
    e: "exec_step nested reg s ctx m = Some (Inr c0, m0)"
    and r: "run_steps nested reg ss c0 m0 = Some (Inr ctx', m')"
    by (auto split: option.splits sum.splits prod.splits)
  from Cons.prems(2) have "\<forall>s \<in> set ss. step_outputs s \<noteq> [] \<longrightarrow> step_id s \<noteq> k" by simp
  from Cons.IH[OF r this] have 1: "map_of ctx' k = map_of c0 k" .
  from exec_step_context[OF e] Cons.prems(2) have "map_of c0 k = map_of ctx k"
    by (auto simp: store_output_lookup)
  with 1 show ?case by simp
qed

lemma run_steps_keys:
  "run_steps nested reg ss ctx m = Some (Inr ctx', m') \<Longrightarrow>
   fst ` set ctx' \<subseteq> fst ` set ctx \<union> {step_id s | s. s \<in> set ss \<and> step_outputs s \<noteq> []}"
proof (induction ss arbitrary: ctx m)
  case Nil then show ?case by simp
next
  case (Cons s ss)
  from Cons.prems(1) obtain c0 m0 where
    e: "exec_step nested reg s ctx m = Some (Inr c0, m0)"
    and r: "run_steps nested reg ss c0 m0 = Some (Inr ctx', m')"
    by (auto split: option.splits sum.splits prod.splits)
  define K where "K = fst ` set ctx"
  define K0 where "K0 = fst ` set c0"
  define K' where "K' = fst ` set ctx'"
  from exec_step_context[OF e] consider "c0 = ctx" | v where "c0 = store_output s v ctx"
    by blast
  then have "K0 = K \<or> (step_outputs s \<noteq> [] \<and> K0 = insert (step_id s) K)"
  proof cases
    case 1
    then show ?thesis unfolding K_def K0_def by simp
  next
    case 2
    then have "K0 = (if step_outputs s \<noteq> [] then insert (step_id s) K else K)"
      unfolding K_def K0_def by (simp only: store_output_keys)
    then show ?thesis by (cases "step_outputs s = []") simp_all
  qed
  moreover from Cons.IH[OF r]
  have "K' \<subseteq> K0 \<union> {step_id s' | s'. s' \<in> set ss \<and> step_outputs s' \<noteq> []}"
    unfolding K0_def K'_def .
  ultimately have "K' \<subseteq> K \<union> {step_id s' | s'. s' \<in> set (s # ss) \<and> step_outputs s' \<noteq> []}"
    by auto
  then show ?case unfolding K_def K'_def .
qed

lemma run_steps_distinct:
  "run_steps nested reg ss ctx m = Some (Inr ctx', m') \<Longrightarrow> distinct (map fst ctx) \<Longrightarrow>
   distinct (map fst ctx')"
proof (induction ss arbitrary: ctx m)
  case Nil then show ?case by simp
next
  case (Cons s ss)
  from Cons.prems(1) obtain c0 m0 where
    e: "exec_step nested reg s ctx m = Some (Inr c0, m0)"
    and r: "run_steps nested reg ss c0 m0 = Some (Inr ctx', m')"
    by (auto split: option.splits sum.splits prod.splits)
  from exec_step_context[OF e] Cons.prems(2) have "distinct (map fst c0)"
    by (auto simp: store_output_distinct)
  from Cons.IH[OF r this] show ?case .
qed

subsection \<open>The context of a completed run\<close>

text \<open>
  Claim C6, as the code has it, for a run that returns a context.  A name that is not
  the id of a step with declared outputs has in the final context what it had in the
  inputs.  Every key of the final context is a key of the inputs or the id of a step
  with declared outputs, and no key occurs twice when none does in the inputs.  For a
  step whose id no later step has, the final context has under that id what the
  context had after the step; and the step either was skipped by a false condition,
  and then changed neither the context nor the state, or ran its body with a result
  \<open>v\<close>, the result of its logic or the list of the results for its items: with no
  declared output the context is as before, and otherwise the entry under the id of
  the step is the dictionary from the first declared output name to \<open>v\<close>.
\<close>

theorem final_context:
  assumes "execute (Suc depth) reg flow inputs m = Some (Inr ctx', m')"
  shows
    "(\<forall>k. (\<forall>s \<in> set (steps flow). step_outputs s \<noteq> [] \<longrightarrow> step_id s \<noteq> k)
          \<longrightarrow> map_of ctx' k = map_of inputs k)
     \<and> fst ` set ctx' \<subseteq> fst ` set inputs
          \<union> {step_id s | s. s \<in> set (steps flow) \<and> step_outputs s \<noteq> []}
     \<and> (distinct (map fst inputs) \<longrightarrow> distinct (map fst ctx'))
     \<and> (steps flow = pre @ s # post \<and> step_id s \<notin> step_id ` set post
        \<longrightarrow> (\<exists>c1 m1 c2 m2.
              run_steps (execute depth reg) reg pre inputs m = Some (Inr c1, m1)
            \<and> exec_step (execute depth reg) reg s c1 m1 = Some (Inr c2, m2)
            \<and> run_steps (execute depth reg) reg post c2 m2 = Some (Inr ctx', m')
            \<and> map_of ctx' (step_id s) = map_of c2 (step_id s)
            \<and> ((\<exists>c. step_if_condition s = Some c \<and> evaluate_condition c c1 = Inr False
                      \<and> c2 = c1 \<and> m2 = m1)
               \<or> (\<exists>v. step_body (execute depth reg) reg s c1 m1 = Some (Inr c2, m2)
                    \<and> (((step_foreach s = None \<or> step_foreach s = Some [])
                         \<and> (\<exists>kw. bind_params (step_bind s) c1 VNone [] = Inr kw
                              \<and> run_step_logic (execute depth reg) reg (step_id s)
                                    (step_tool_id s) kw m1 = Some (Inr v, m2)))
                       \<or> (\<exists>fe items rs. step_foreach s = Some fe \<and> fe \<noteq> []
                            \<and> resolve_value fe c1 VNone = Inr (VList items) \<and> v = VList rs
                            \<and> run_items (execute depth reg) reg s c1 items [] m1
                                = Some (Inr rs, m2)))
                    \<and> (step_outputs s = [] \<longrightarrow> c2 = c1)
                    \<and> (\<forall>out ty others. step_outputs s = (out, ty) # others
                          \<longrightarrow> map_of ctx' (step_id s) = Some (VDict [(out, v)]))))))"
proof (intro conjI allI impI)
  let ?N = "execute depth reg"
  from assms have run: "run_steps ?N reg (steps flow) inputs m = Some (Inr ctx', m')" by simp
  show "map_of ctx' k = map_of inputs k"
    if "\<forall>s \<in> set (steps flow). step_outputs s \<noteq> [] \<longrightarrow> step_id s \<noteq> k" for k
    using run that by (rule run_steps_lookup)
  show "fst ` set ctx' \<subseteq> fst ` set inputs
          \<union> {step_id s | s. s \<in> set (steps flow) \<and> step_outputs s \<noteq> []}"
    using run by (rule run_steps_keys)
  show "distinct (map fst ctx')" if "distinct (map fst inputs)"
    using run that by (rule run_steps_distinct)
  assume a: "steps flow = pre @ s # post \<and> step_id s \<notin> step_id ` set post"
  with run run_steps_split[of ?N reg pre s post inputs m ctx' m'] obtain c1 m1 c2 m2 where
    p: "run_steps ?N reg pre inputs m = Some (Inr c1, m1)"
    and e: "exec_step ?N reg s c1 m1 = Some (Inr c2, m2)"
    and q: "run_steps ?N reg post c2 m2 = Some (Inr ctx', m')"
    by auto
  from a have "\<forall>s' \<in> set post. step_outputs s' \<noteq> [] \<longrightarrow> step_id s' \<noteq> step_id s"
    by (metis imageI)
  from run_steps_lookup[OF q this] have keep: "map_of ctx' (step_id s) = map_of c2 (step_id s)" .
  have "(\<exists>c. step_if_condition s = Some c \<and> evaluate_condition c c1 = Inr False
                      \<and> c2 = c1 \<and> m2 = m1)
      \<or> (\<exists>v. step_body ?N reg s c1 m1 = Some (Inr c2, m2)
            \<and> (((step_foreach s = None \<or> step_foreach s = Some [])
                 \<and> (\<exists>kw. bind_params (step_bind s) c1 VNone [] = Inr kw
                      \<and> run_step_logic ?N reg (step_id s) (step_tool_id s) kw m1
                          = Some (Inr v, m2)))
               \<or> (\<exists>fe items rs. step_foreach s = Some fe \<and> fe \<noteq> []
                    \<and> resolve_value fe c1 VNone = Inr (VList items) \<and> v = VList rs
                    \<and> run_items ?N reg s c1 items [] m1 = Some (Inr rs, m2)))
            \<and> (step_outputs s = [] \<longrightarrow> c2 = c1)
            \<and> (\<forall>out ty others. step_outputs s = (out, ty) # others
                  \<longrightarrow> map_of ctx' (step_id s) = Some (VDict [(out, v)])))"
  proof (cases "step_body ?N reg s c1 m1 = Some (Inr c2, m2)")
    case False
    with exec_step_cases[OF e] show ?thesis by blast
  next
    case True
    from step_body_result[OF True] obtain v where
      v: "c2 = store_output s v c1"
      and how: "((step_foreach s = None \<or> step_foreach s = Some [])
                 \<and> (\<exists>kw. bind_params (step_bind s) c1 VNone [] = Inr kw
                      \<and> run_step_logic ?N reg (step_id s) (step_tool_id s) kw m1
                          = Some (Inr v, m2)))
               \<or> (\<exists>fe items rs. step_foreach s = Some fe \<and> fe \<noteq> []
                    \<and> resolve_value fe c1 VNone = Inr (VList items) \<and> v = VList rs
                    \<and> run_items ?N reg s c1 items [] m1 = Some (Inr rs, m2))"
      by blast
    have none: "step_outputs s = [] \<longrightarrow> c2 = c1" using v by (simp add: store_output_none)
    have some: "\<forall>out ty others. step_outputs s = (out, ty) # others
                  \<longrightarrow> map_of ctx' (step_id s) = Some (VDict [(out, v)])"
      using keep v by (simp add: store_output_lookup)
    from True how none some show ?thesis by blast
  qed
  with p e q keep
  show "\<exists>c1 m1 c2 m2.
              run_steps (execute depth reg) reg pre inputs m = Some (Inr c1, m1)
            \<and> exec_step (execute depth reg) reg s c1 m1 = Some (Inr c2, m2)
            \<and> run_steps (execute depth reg) reg post c2 m2 = Some (Inr ctx', m')
            \<and> map_of ctx' (step_id s) = map_of c2 (step_id s)
            \<and> ((\<exists>c. step_if_condition s = Some c \<and> evaluate_condition c c1 = Inr False
                      \<and> c2 = c1 \<and> m2 = m1)
               \<or> (\<exists>v. step_body (execute depth reg) reg s c1 m1 = Some (Inr c2, m2)
                    \<and> (((step_foreach s = None \<or> step_foreach s = Some [])
                         \<and> (\<exists>kw. bind_params (step_bind s) c1 VNone [] = Inr kw
                              \<and> run_step_logic (execute depth reg) reg (step_id s)
                                    (step_tool_id s) kw m1 = Some (Inr v, m2)))
                       \<or> (\<exists>fe items rs. step_foreach s = Some fe \<and> fe \<noteq> []
                            \<and> resolve_value fe c1 VNone = Inr (VList items) \<and> v = VList rs
                            \<and> run_items (execute depth reg) reg s c1 items [] m1
                                = Some (Inr rs, m2)))
                    \<and> (step_outputs s = [] \<longrightarrow> c2 = c1)
                    \<and> (\<forall>out ty others. step_outputs s = (out, ty) # others
                          \<longrightarrow> map_of ctx' (step_id s) = Some (VDict [(out, v)]))))"
    by (intro exI[of _ c1] exI[of _ m1] exI[of _ c2] exI[of _ m2]) simp
qed

text \<open>
  The instance: the pipeline of the tests with \<^verbatim>\<open>do_it\<close> false.  The input is kept,
  the keys are among the input and the two step ids and are distinct, and the second
  step, which is skipped, leaves no entry.
\<close>

theorem final_context_witness:
  "\<exists>ctx' m'. execute 1 test_registry test_pipeline [(''do_it'', VBool False)] test_machine
        = Some (Inr ctx', m')
     \<and> map_of ctx' ''do_it'' = Some (VBool False)
     \<and> fst ` set ctx' \<subseteq> {''do_it'', ''step1'', ''step2''}
     \<and> distinct (map fst ctx')
     \<and> (\<exists>c1 m1 c2 m2.
           run_steps (execute 0 test_registry) test_registry [step1] [(''do_it'', VBool False)]
             test_machine = Some (Inr c1, m1)
         \<and> exec_step (execute 0 test_registry) test_registry step2 c1 m1 = Some (Inr c2, m2)
         \<and> map_of ctx' ''step2'' = map_of c2 ''step2'')"
proof -
  let ?in = "[(''do_it'', VBool False)]"
  let ?out = "[(''do_it'', VBool False), (''step1'', VDict [(''res'', VStr ''executed'')])]"
  have "map_option fst (execute 1 test_registry test_pipeline ?in test_machine) = Some (Inr ?out)"
    by code_simp
  then obtain m' where
    run: "execute (Suc 0) test_registry test_pipeline ?in test_machine = Some (Inr ?out, m')"
    by (cases "execute 1 test_registry test_pipeline ?in test_machine") auto
  note t = final_context[OF run]
  have ids: "step_id step1 = ''step1''" "step_id step2 = ''step2''"
    by (simp_all add: step1_def step2_def)
  have st: "steps test_pipeline = [step1, step2]" by (simp add: test_pipeline_def)
  have "\<forall>s \<in> set (steps test_pipeline). step_outputs s \<noteq> [] \<longrightarrow> step_id s \<noteq> ''do_it''"
    by (simp add: st ids)
  with t[THEN conjunct1] have 1: "map_of ?out ''do_it'' = map_of ?in ''do_it''" by blast
  have "fst ` set ?in \<union> {step_id s | s. s \<in> set (steps test_pipeline) \<and> step_outputs s \<noteq> []}
      \<subseteq> {''do_it'', ''step1'', ''step2''}"
    using ids by (auto simp: st)
  with t[THEN conjunct2, THEN conjunct1]
  have 2: "fst ` set ?out \<subseteq> {''do_it'', ''step1'', ''step2''}" by blast
  have "distinct (map fst ?in)" by simp
  with t[THEN conjunct2, THEN conjunct2, THEN conjunct1] have 3: "distinct (map fst ?out)"
    by blast
  have "steps test_pipeline = [step1] @ step2 # [] \<and> step_id step2 \<notin> step_id ` set []"
    by (simp add: st)
  with t[where pre = "[step1]" and s = step2 and post = "[]",
      THEN conjunct2, THEN conjunct2, THEN conjunct2]
  obtain c1 m1 c2 m2 where 4:
    "run_steps (execute 0 test_registry) test_registry [step1] ?in test_machine = Some (Inr c1, m1)"
    "exec_step (execute 0 test_registry) test_registry step2 c1 m1 = Some (Inr c2, m2)"
    "map_of ?out (step_id step2) = map_of c2 (step_id step2)"
    by blast
  from 4 ids have 5: "\<exists>c1 m1 c2 m2.
           run_steps (execute 0 test_registry) test_registry [step1] ?in test_machine
             = Some (Inr c1, m1)
         \<and> exec_step (execute 0 test_registry) test_registry step2 c1 m1 = Some (Inr c2, m2)
         \<and> map_of ?out ''step2'' = map_of c2 ''step2''"
    by metis
  have one: "map_of ?out ''do_it'' = Some (VBool False)" using 1 by simp
  from run have run': "execute 1 test_registry test_pipeline ?in test_machine = Some (Inr ?out, m')"
    by simp
  from run' one 2 3 5 show ?thesis by blast
qed

text \<open>
  Claim C6 as stated fails where an input has the name of a step, and for a step with
  no declared output: the input \<^verbatim>\<open>step1\<close> is replaced by the entry of the step, and
  the step \<^verbatim>\<open>quiet\<close>, which runs (the callable is invoked for it), has no entry.
\<close>

theorem final_context_counterexample:
  "map_option (apsnd calls)
     (execute 1 test_registry quiet_pipeline [(''step1'', VInt 7)] test_machine)
   = Some (Inr [(''step1'', VDict [(''res'', VStr ''executed'')])],
           [(''print_msg'', [(''msg'', VStr ''Hello'')]), (''print_msg'', [(''msg'', VStr ''Quiet'')])])"
  by code_simp

section \<open>The sandbox's command\<close>

subsection \<open>Decimal texts\<close>

lemma show_nat_ten: "show_nat 10 = ''10''"
  by (simp add: show_nat.simps digit_char_def)

lemma show_nat_cap: "show_nat (512 * 1024 * 1024) = ''536870912''"
  by (simp add: show_nat.simps digit_char_def)

lemma digit_value_digit_char: "d < 10 \<Longrightarrow> digit_value (digit_char d) = d"
proof -
  assume "d < 10"
  then have "d = 0 \<or> d = 1 \<or> d = 2 \<or> d = 3 \<or> d = 4 \<or> d = 5 \<or> d = 6 \<or> d = 7 \<or> d = 8 \<or> d = 9"
    by arith
  then show ?thesis by (elim disjE) (simp_all add: digit_value_def digit_char_def)
qed

lemma read_nat_snoc: "read_nat (s @ [c]) = 10 * read_nat s + digit_value c"
  by (simp add: read_nat_def)

lemma read_show_nat: "read_nat (show_nat n) = n"
proof (induction n rule: show_nat.induct)
  case (1 n)
  show ?case
  proof (cases "n < 10")
    case True
    then have "show_nat n = [digit_char n]" by (subst show_nat.simps) simp
    with True show ?thesis by (simp add: read_nat_def digit_value_digit_char)
  next
    case False
    with 1 have ih: "read_nat (show_nat (n div 10)) = n div 10" by simp
    from False have "show_nat n = show_nat (n div 10) @ [digit_char (n mod 10)]"
      by (subst show_nat.simps) simp
    then show ?thesis by (simp add: read_nat_snoc digit_value_digit_char ih)
  qed
qed

subsection \<open>The argument vector\<close>

text \<open>
  Claim C9.  The argument vector is the namespace-isolation wrapper, then the
  resource-limiting wrapper, then the caller's command: what is left after the two
  wrappers is the command as it was given.  The resource-limiting wrapper is
  \<^verbatim>\<open>prlimit\<close> with a memory cap whose decimal text denotes \<^verbatim>\<open>memory_limit_mb\<close>
  times 1024 squared and a CPU cap whose text denotes \<^verbatim>\<open>cpu_time_limit_sec\<close>.  For
  512 MB and 10 seconds the caps are 536870912 bytes and 10 seconds.
\<close>

theorem sandbox_command:
  "build_command namespace_wrapper policy workdir cmd
     = namespace_wrapper policy workdir @ resource_wrapper policy @ cmd
   \<and> (\<exists>mem cpu. resource_wrapper policy = [''prlimit'', ''--as='' @ mem, ''--cpu='' @ cpu]
         \<and> read_nat mem = memory_limit_mb policy * 1024\<^sup>2
         \<and> read_nat cpu = cpu_time_limit_sec policy)
   \<and> drop (length (namespace_wrapper policy workdir) + length (resource_wrapper policy))
        (build_command namespace_wrapper policy workdir cmd) = cmd
   \<and> build_command namespace_wrapper
        \<lparr> memory_limit_mb = 512, cpu_time_limit_sec = 10, allow_network = net \<rparr> workdir cmd
     = namespace_wrapper \<lparr> memory_limit_mb = 512, cpu_time_limit_sec = 10, allow_network = net \<rparr>
         workdir
       @ [''prlimit'', ''--as=536870912'', ''--cpu=10''] @ cmd"
proof (intro conjI)
  show "build_command namespace_wrapper policy workdir cmd
     = namespace_wrapper policy workdir @ resource_wrapper policy @ cmd"
    by (simp add: build_command_def)
  have a: "read_nat (show_nat (memory_limit_mb policy * 1024 * 1024))
      = memory_limit_mb policy * 1024\<^sup>2"
    unfolding read_show_nat power2_eq_square by (rule mult.assoc)
  have b: "read_nat (show_nat (cpu_time_limit_sec policy)) = cpu_time_limit_sec policy"
    by (rule read_show_nat)
  have c: "resource_wrapper policy
      = [''prlimit'', ''--as='' @ show_nat (memory_limit_mb policy * 1024 * 1024),
         ''--cpu='' @ show_nat (cpu_time_limit_sec policy)]"
    by (simp only: resource_wrapper_def)
  from a b c
  show "\<exists>mem cpu. resource_wrapper policy = [''prlimit'', ''--as='' @ mem, ''--cpu='' @ cpu]
         \<and> read_nat mem = memory_limit_mb policy * 1024\<^sup>2
         \<and> read_nat cpu = cpu_time_limit_sec policy"
    by blast
  show "drop (length (namespace_wrapper policy workdir) + length (resource_wrapper policy))
        (build_command namespace_wrapper policy workdir cmd) = cmd"
    by (simp add: build_command_def)
  have "resource_wrapper \<lparr> memory_limit_mb = 512, cpu_time_limit_sec = 10, allow_network = net \<rparr>
      = [''prlimit'', ''--as=536870912'', ''--cpu=10'']"
    unfolding resource_wrapper_def
    by (simp only: SandboxPolicy.simps show_nat_cap show_nat_ten) simp
  then show "build_command namespace_wrapper
        \<lparr> memory_limit_mb = 512, cpu_time_limit_sec = 10, allow_network = net \<rparr> workdir cmd
     = namespace_wrapper \<lparr> memory_limit_mb = 512, cpu_time_limit_sec = 10, allow_network = net \<rparr>
         workdir
       @ [''prlimit'', ''--as=536870912'', ''--cpu=10''] @ cmd"
    by (simp only: build_command_def)
qed

section \<open>Identifiers from content\<close>

subsection \<open>Digests of a fixed length collide\<close>

lemma finite_digests: "finite {xs :: string. length xs = n}"
proof -
  have "finite {xs :: string. set xs \<subseteq> UNIV \<and> length xs = n}"
    by (rule finite_lists_length_eq) (rule finite)
  then show ?thesis by (simp only: subset_UNIV simp_thms)
qed

lemma digest_collision:
  assumes "\<forall>x. length (H x :: string) = (n :: nat)"
  shows "\<exists>c c' :: string. c \<noteq> c' \<and> H (p @ c) = H (p @ c')"
proof (rule ccontr)
  assume "\<not> (\<exists>c c'. c \<noteq> c' \<and> H (p @ c) = H (p @ c'))"
  then have "\<And>c c'. H (p @ c) = H (p @ c') \<Longrightarrow> c = c'" by blast
  then have i: "inj (\<lambda>c. H (p @ c))" by (rule injI)
  have "range (\<lambda>c. H (p @ c)) \<subseteq> {xs. length xs = n}"
  proof
    fix y assume "y \<in> range (\<lambda>c. H (p @ c))"
    then obtain c where "y = H (p @ c)" by (rule rangeE)
    with assms show "y \<in> {xs. length xs = n}" by simp
  qed
  then have "finite (range (\<lambda>c. H (p @ c)))" by (rule finite_subset) (rule finite_digests)
  then have "finite (UNIV :: string set)" using i by (rule finite_imageD)
  moreover have "infinite (UNIV :: string set)" by (rule infinite_UNIV_listI)
  ultimately show False by simp
qed

subsection \<open>\<^verbatim>\<open>resolve_id\<close>\<close>

text \<open>
  The id is the digest of the text of the spec followed by the source code, so pairs
  with the same such text have the same id, and two ids differ exactly when the
  digests of the two texts differ.  A change of the source code changes the text, and
  so does, for the same source code, a change of the spec that changes its JSON.
  Whether the digests of two different texts differ is a property of SHA-256 alone.
  It holds with a probability and not for all texts: a digest of 64 characters cannot
  tell all texts apart, and for every spec there are two source codes with the same
  id, though none is known.
\<close>

lemma resolve_id_payload:
  "(json_dumps s @ c = json_dumps s' @ c'
      \<longrightarrow> resolve_id sha256_hexdigest json_dumps s c = resolve_id sha256_hexdigest json_dumps s' c')
   \<and> (resolve_id sha256_hexdigest json_dumps s c \<noteq> resolve_id sha256_hexdigest json_dumps s' c'
        \<longleftrightarrow> sha256_hexdigest (json_dumps s @ c) \<noteq> sha256_hexdigest (json_dumps s' @ c'))
   \<and> (c \<noteq> c' \<longrightarrow> json_dumps s @ c \<noteq> json_dumps s @ c')
   \<and> (json_dumps s \<noteq> json_dumps s' \<longrightarrow> json_dumps s @ c \<noteq> json_dumps s' @ c)"
  by (simp add: resolve_id_def hash_payload_def)

lemma resolve_id_not_injective:
  assumes "\<forall>x. length (sha256_hexdigest x :: string) = 64"
  shows "\<exists>c c'. c \<noteq> c'
           \<and> resolve_id sha256_hexdigest json_dumps s c = resolve_id sha256_hexdigest json_dumps s c'"
  using digest_collision[OF assms, of "json_dumps s"]
  by (simp add: resolve_id_def hash_payload_def)

end
